theory Spec2Isabelle
  imports Main "HOL-Library.Sublist"
begin

section \<open>JavaScript strings\<close>

text \<open>
  A JavaScript string is modelled as a \<open>string\<close> (a list of characters), one \<open>char\<close> per
  code unit; the code units are those below 256. The operations below follow the
  ECMAScript definitions of the methods that \<open>src/index.ts\<close> calls.
\<close>

abbreviation LF :: char where "LF \<equiv> CHR 0x0A"
abbreviation CR :: char where "CR \<equiv> CHR 0x0D"
abbreviation SP :: char where "SP \<equiv> CHR 0x20"
abbreviation BACKTICK :: char where "BACKTICK \<equiv> CHR 0x60"

text \<open>\<open>s.startsWith(p)\<close>\<close>

definition startsWith :: "string \<Rightarrow> string \<Rightarrow> bool" where
  "startsWith s p = (take (length p) s = p)"

text \<open>\<open>s.indexOf(sub)\<close>, with \<open>None\<close> for -1, and \<open>s.includes(sub)\<close>.\<close>

fun indexOf :: "string \<Rightarrow> string \<Rightarrow> nat option" where
  "indexOf [] sub = (if sub = [] then Some 0 else None)"
| "indexOf (c # cs) sub =
     (if startsWith (c # cs) sub then Some 0 else map_option Suc (indexOf cs sub))"

definition includes_str :: "string \<Rightarrow> string \<Rightarrow> bool" where
  "includes_str s sub = (indexOf s sub \<noteq> None)"

text \<open>
  \<open>GetSubstitution\<close> of ECMAScript for a string pattern (no capture groups): in the
  replacement template \<open>$$\<close> stands for a dollar sign, \<open>$&\<close> for the matched text,
  \<open>$`\<close> for the text preceding the match and \<open>$'\<close> for the text following it; every other
  character, also a dollar sign followed by anything else, is copied.
\<close>

fun getSubstitution :: "string \<Rightarrow> string \<Rightarrow> string \<Rightarrow> string \<Rightarrow> string" where
  "getSubstitution matched preceding following (c # d # rest) =
     (if c = CHR ''$'' \<and> d = CHR ''$'' then CHR ''$'' # getSubstitution matched preceding following rest
      else if c = CHR ''$'' \<and> d = CHR ''&'' then matched @ getSubstitution matched preceding following rest
      else if c = CHR ''$'' \<and> d = BACKTICK then preceding @ getSubstitution matched preceding following rest
      else if c = CHR ''$'' \<and> d = CHR 0x27 then following @ getSubstitution matched preceding following rest
      else c # getSubstitution matched preceding following (d # rest))"
| "getSubstitution matched preceding following template = template"

text \<open>\<open>s.replace(searchValue, replaceValue)\<close> with both arguments strings.\<close>

definition replace_str :: "string \<Rightarrow> string \<Rightarrow> string \<Rightarrow> string" where
  "replace_str s searchValue replaceValue =
     (case indexOf s searchValue of
        None \<Rightarrow> s
      | Some pos \<Rightarrow>
          let preceding = take pos s;
              following = drop (pos + length searchValue) s
          in preceding @ getSubstitution searchValue preceding following replaceValue @ following)"

text \<open>\<open>s.split('\n')\<close> and \<open>lines.join('\n')\<close>.\<close>

fun split_nl :: "string \<Rightarrow> string list" where
  "split_nl [] = [[]]"
| "split_nl (c # cs) =
     (if c = LF then [] # split_nl cs
      else (case split_nl cs of l # ls \<Rightarrow> (c # l) # ls | [] \<Rightarrow> [[c]]))"

fun join_nl :: "string list \<Rightarrow> string" where
  "join_nl [] = []"
| "join_nl [l] = l"
| "join_nl (l # ls) = l @ LF # join_nl ls"

text \<open>
  White space as \<open>trim\<close>, \<open>trimStart\<close> and the regular expression class \<open>\s\<close> see it:
  the WhiteSpace and LineTerminator code points (those below 256).
\<close>

definition is_ws :: "char \<Rightarrow> bool" where
  "is_ws c = (c \<in> {CHR 0x09, CHR 0x0A, CHR 0x0B, CHR 0x0C, CHR 0x0D, CHR 0x20, CHR 0xA0})"

definition trimStart :: "string \<Rightarrow> string" where
  "trimStart s = dropWhile is_ws s"

definition trim :: "string \<Rightarrow> string" where
  "trim s = rev (dropWhile is_ws (rev (dropWhile is_ws s)))"

text \<open>\<open>line.match(/^\s*/)?.[0] || ''\<close>: the leading white space of a line.\<close>

definition leadingWs :: "string \<Rightarrow> string" where
  "leadingWs s = takeWhile is_ws s"

section \<open>Errors\<close>

text \<open>
  Every \<open>throw new Error(...)\<close> of the source is a constructor, with the values its message
  interpolates; \<open>FsError\<close> stands for a rejection of a \<open>fs\<close> call (its code and path).
\<close>

datatype error =
    AccessDenied string
  | AccessDeniedSymlink
  | AccessDeniedParent
  | ParentMissing string
  | EditNotFound string
  | AlreadyExists string
  | SourceMissing string
  | SourceIsDirectory string
  | SourceNotDirectory string
  | SourceDirMissing string
  | NotFound string
  | NotEmpty string
  | FsError string string

section \<open>The edit engine\<close>

record edit =
  oldText :: string
  newText :: string

fun normalizeLineEndings :: "string \<Rightarrow> string" where
  "normalizeLineEndings (c # d # cs) =
     (if c = CR \<and> d = LF then LF # normalizeLineEndings cs
      else c # normalizeLineEndings (d # cs))"
| "normalizeLineEndings cs = cs"

text \<open>The callback of \<open>oldLines.every\<close> for the window that starts at line \<open>i\<close>.\<close>

definition isMatch :: "string list \<Rightarrow> string list \<Rightarrow> nat \<Rightarrow> bool" where
  "isMatch oldLines contentLines i =
     (let potentialMatch = take (length oldLines) (drop i contentLines)
      in list_all (\<lambda>j. trim (oldLines ! j) = trim (potentialMatch ! j)) [0..<length oldLines])"

text \<open>
  The loop \<open>for (let i = 0; i <= contentLines.length - oldLines.length; i++)\<close> up to its
  \<open>break\<close>: the first index whose window matches.
\<close>

definition findMatch :: "string list \<Rightarrow> string list \<Rightarrow> nat option" where
  "findMatch oldLines contentLines =
     (if length oldLines \<le> length contentLines
      then find (isMatch oldLines contentLines)
             [0..<Suc (length contentLines - length oldLines)]
      else None)"

text \<open>The callback of \<open>normalizedNew.split('\n').map\<close>.\<close>

definition reindent :: "string \<Rightarrow> string list \<Rightarrow> nat \<Rightarrow> string \<Rightarrow> string" where
  "reindent originalIndent oldLines j line =
     (if j = 0 then originalIndent @ trimStart line
      else
        let oldIndent = (if j < length oldLines then leadingWs (oldLines ! j) else []);
            newIndent = leadingWs line
        in if oldIndent \<noteq> [] \<and> newIndent \<noteq> []
           then
             let relativeIndent = int (length newIndent) - int (length oldIndent)
             in originalIndent @ replicate (nat (max 0 relativeIndent)) SP @ trimStart line
           else line)"

definition newLines_of :: "string \<Rightarrow> string list \<Rightarrow> string \<Rightarrow> string list" where
  "newLines_of originalIndent oldLines normalizedNew =
     map (\<lambda>(j, line). reindent originalIndent oldLines j line)
       (enumerate 0 (split_nl normalizedNew))"

text \<open>One iteration of the loop over \<open>edits\<close> in \<open>applyFileEdits\<close>.\<close>

definition applyEdit :: "string \<Rightarrow> edit \<Rightarrow> error + string" where
  "applyEdit modifiedContent e =
     (let normalizedOld = normalizeLineEndings (oldText e);
          normalizedNew = normalizeLineEndings (newText e)
      in if includes_str modifiedContent normalizedOld
         then Inr (replace_str modifiedContent normalizedOld normalizedNew)
         else
           let oldLines = split_nl normalizedOld;
               contentLines = split_nl modifiedContent
           in case findMatch oldLines contentLines of
                None \<Rightarrow> Inl (EditNotFound (oldText e))
              | Some i \<Rightarrow>
                  let originalIndent = leadingWs (contentLines ! i);
                      newLines = newLines_of originalIndent oldLines normalizedNew
                  in Inr (join_nl (take i contentLines @ newLines
                                   @ drop (i + length oldLines) contentLines)))"

fun applyEdits :: "string \<Rightarrow> edit list \<Rightarrow> error + string" where
  "applyEdits modifiedContent [] = Inr modifiedContent"
| "applyEdits modifiedContent (e # es) =
     (case applyEdit modifiedContent e of
        Inl err \<Rightarrow> Inl err
      | Inr modifiedContent' \<Rightarrow> applyEdits modifiedContent' es)"

section \<open>Paths\<close>

text \<open>
  The functions of Node's \<open>path\<close> module in their POSIX form, on the segments of a path.
  \<open>homedir\<close> and \<open>cwd\<close> are what \<open>os.homedir()\<close> and \<open>process.cwd()\<close> return.
\<close>

record env =
  homedir :: string
  cwd :: string

fun split_slash :: "string \<Rightarrow> string list" where
  "split_slash [] = [[]]"
| "split_slash (c # cs) =
     (if c = CHR ''/'' then [] # split_slash cs
      else (case split_slash cs of l # ls \<Rightarrow> (c # l) # ls | [] \<Rightarrow> [[c]]))"

fun join_slash :: "string list \<Rightarrow> string" where
  "join_slash [] = []"
| "join_slash [l] = l"
| "join_slash (l # ls) = l @ CHR ''/'' # join_slash ls"

text \<open>
  \<open>normalizeString\<close>: empty segments and \<open>.\<close> are dropped, \<open>..\<close> removes the segment
  before it; where there is none to remove it is kept if \<open>allowAboveRoot\<close> and dropped
  otherwise.
\<close>

fun normalizeString :: "bool \<Rightarrow> string list \<Rightarrow> string list \<Rightarrow> string list" where
  "normalizeString allowAboveRoot res [] = res"
| "normalizeString allowAboveRoot res (seg # segs) =
     (if seg = [] \<or> seg = ''.'' then normalizeString allowAboveRoot res segs
      else if seg = ''..'' then
        (if res \<noteq> [] \<and> last res \<noteq> ''..''
         then normalizeString allowAboveRoot (butlast res) segs
         else if allowAboveRoot then normalizeString allowAboveRoot (res @ [''..'']) segs
         else normalizeString allowAboveRoot res segs)
      else normalizeString allowAboveRoot (res @ [seg]) segs)"

definition isAbsolute :: "string \<Rightarrow> bool" where
  "isAbsolute p = (p \<noteq> [] \<and> hd p = CHR ''/'')"

definition normalize :: "string \<Rightarrow> string" where
  "normalize p =
     (if p = [] then ''.''
      else
        let trailingSeparator = (last p = CHR ''/'');
            path = join_slash (normalizeString (\<not> isAbsolute p) [] (split_slash p))
        in if path = []
           then (if isAbsolute p then ''/'' else if trailingSeparator then ''./'' else ''.'')
           else (if isAbsolute p then ''/'' else []) @ path
                @ (if trailingSeparator then ''/'' else []))"

text \<open>
  \<open>path.resolve(...args)\<close>: the arguments are taken from the right until one is absolute,
  the working directory last.
\<close>

fun resolve_loop :: "string list \<Rightarrow> string \<Rightarrow> string \<times> bool" where
  "resolve_loop [] resolvedPath = (resolvedPath, False)"
| "resolve_loop (p # ps) resolvedPath =
     (if p = [] then resolve_loop ps resolvedPath
      else if isAbsolute p then (p @ ''/'' @ resolvedPath, True)
      else resolve_loop ps (p @ ''/'' @ resolvedPath))"

definition resolve :: "env \<Rightarrow> string list \<Rightarrow> string" where
  "resolve ev args =
     (let (resolvedPath, resolvedAbsolute) = resolve_loop (rev args @ [cwd ev]) [];
          path = join_slash (normalizeString (\<not> resolvedAbsolute) [] (split_slash resolvedPath))
      in if resolvedAbsolute then CHR ''/'' # path
         else if path \<noteq> [] then path else ''.'')"

definition join_path :: "string list \<Rightarrow> string" where
  "join_path args =
     (let joined = join_slash (filter (\<lambda>a. a \<noteq> []) args)
      in if joined = [] then ''.'' else normalize joined)"

text \<open>
  \<open>path.dirname\<close>: trailing separators are skipped, then the last segment; the root of an
  absolute path is never cut.
\<close>

definition dirname :: "string \<Rightarrow> string" where
  "dirname p =
     (if p = [] then ''.''
      else
        let hasRoot = (hd p = CHR ''/'');
            r = dropWhile (\<lambda>c. c \<noteq> CHR ''/'') (dropWhile (\<lambda>c. c = CHR ''/'') (rev (tl p)))
        in if r = [] then (if hasRoot then ''/'' else ''.'')
           else if hasRoot \<and> length r = 1 then ''//''
           else take (length r) p)"

text \<open>\<open>path.relative(from, to)\<close>, on the segments of the two resolved paths.\<close>

definition relative :: "env \<Rightarrow> string \<Rightarrow> string \<Rightarrow> string" where
  "relative ev from to =
     (if from = to then []
      else
        let f = resolve ev [from]; t = resolve ev [to]
        in if f = t then []
           else
             let fsegs = filter (\<lambda>a. a \<noteq> []) (split_slash f);
                 tsegs = filter (\<lambda>a. a \<noteq> []) (split_slash t);
                 n = length (longest_common_prefix fsegs tsegs)
             in join_slash (replicate (length fsegs - n) ''..'' @ drop n tsegs))"

definition normalizePath :: "string \<Rightarrow> string" where
  "normalizePath p = normalize p"

definition expandHome :: "env \<Rightarrow> string \<Rightarrow> string" where
  "expandHome ev filepath =
     (if startsWith filepath ''~/'' \<or> filepath = ''~''
      then join_path [homedir ev, drop 1 filepath]
      else filepath)"

section \<open>The file system\<close>

text \<open>
  The file system is the tree of its directory entries, in the order \<open>readdir\<close> lists
  them; the root directory always exists. A symbolic link holds its target. Timestamps,
  owners and permission bits are not part of the model.
\<close>

datatype node = File string | Directory "(string \<times> node) list" | Symlink string

type_synonym filesystem = "(string \<times> node) list"

definition abs_of :: "string list \<Rightarrow> string" where
  "abs_of segs = CHR ''/'' # join_slash segs"

definition segments :: "string \<Rightarrow> string list" where
  "segments p = filter (\<lambda>a. a \<noteq> []) (split_slash p)"

definition basename :: "string \<Rightarrow> string" where
  "basename p = (case rev (segments p) of [] \<Rightarrow> [] | b # bs \<Rightarrow> b)"

text \<open>The node at a path, no link followed (as \<open>lstat\<close> on a path of real directories).\<close>

fun walk :: "(string \<times> node) list \<Rightarrow> string list \<Rightarrow> node option" where
  "walk es [] = Some (Directory es)"
| "walk es (name # rest) =
     (case map_of es name of
        None \<Rightarrow> None
      | Some nd \<Rightarrow>
          if rest = [] then Some nd
          else (case nd of Directory children \<Rightarrow> walk children rest | _ \<Rightarrow> None))"

text \<open>Replace the entry of a name, or append it.\<close>

fun set_entry :: "string \<Rightarrow> node \<Rightarrow> (string \<times> node) list \<Rightarrow> (string \<times> node) list" where
  "set_entry name nd [] = [(name, nd)]"
| "set_entry name nd ((k, v) # es) =
     (if k = name then (k, nd) # es else (k, v) # set_entry name nd es)"

text \<open>Create or replace the node at a path whose parent is an existing directory.\<close>

fun put :: "(string \<times> node) list \<Rightarrow> string list \<Rightarrow> node \<Rightarrow> (string \<times> node) list option" where
  "put es [] nd = None"
| "put es (name # rest) nd =
     (if rest = [] then Some (set_entry name nd es)
      else
        (case map_of es name of
           Some (Directory children) \<Rightarrow>
             map_option (\<lambda>children'. set_entry name (Directory children') es)
               (put children rest nd)
         | _ \<Rightarrow> None))"

text \<open>Remove the node at a path.\<close>

fun remove :: "(string \<times> node) list \<Rightarrow> string list \<Rightarrow> (string \<times> node) list option" where
  "remove es [] = None"
| "remove es (name # rest) =
     (if rest = [] then Some (filter (\<lambda>(k, v). k \<noteq> name) es)
      else
        (case map_of es name of
           Some (Directory children) \<Rightarrow>
             map_option (\<lambda>children'. set_entry name (Directory children') es)
               (remove children rest)
         | _ \<Rightarrow> None))"

text \<open>
  \<open>fs.realpath\<close> on an absolute path: the path is walked segment by segment from the
  root and every symbolic link on the way is followed (at most 40 of them, then the call
  fails as the operating system does with ELOOP); a missing segment, or a file where a
  directory is needed, makes it fail (\<open>None\<close>).
\<close>

fun realpath_from :: "filesystem \<Rightarrow> nat \<Rightarrow> string list \<Rightarrow> string list \<Rightarrow> string list option" where
  "realpath_from fs fuel cur [] = Some cur"
| "realpath_from fs fuel cur (c # rest) =
     (if c = [] \<or> c = ''.'' then realpath_from fs fuel cur rest
      else if c = ''..'' then realpath_from fs fuel (butlast cur) rest
      else
        (case walk fs (cur @ [c]) of
           None \<Rightarrow> None
         | Some (File content) \<Rightarrow> if rest = [] then Some (cur @ [c]) else None
         | Some (Directory children) \<Rightarrow> realpath_from fs fuel (cur @ [c]) rest
         | Some (Symlink target) \<Rightarrow>
             (case fuel of
                0 \<Rightarrow> None
              | Suc fuel' \<Rightarrow>
                  realpath_from fs fuel' (if isAbsolute target then [] else cur)
                    (split_slash target @ rest))))"

definition real_segments :: "filesystem \<Rightarrow> string \<Rightarrow> string list option" where
  "real_segments fs p = realpath_from fs 40 [] (split_slash p)"

definition realpath :: "filesystem \<Rightarrow> string \<Rightarrow> string option" where
  "realpath fs p = map_option abs_of (real_segments fs p)"

text \<open>\<open>fs.stat\<close> and \<open>fs.access\<close> follow symbolic links.\<close>

definition stat :: "filesystem \<Rightarrow> string \<Rightarrow> node option" where
  "stat fs p = (case real_segments fs p of None \<Rightarrow> None | Some segs \<Rightarrow> walk fs segs)"

definition access :: "filesystem \<Rightarrow> string \<Rightarrow> bool" where
  "access fs p = (stat fs p \<noteq> None)"

fun isDirectory :: "node \<Rightarrow> bool" where
  "isDirectory (Directory children) = True"
| "isDirectory nd = False"

definition readFile :: "filesystem \<Rightarrow> string \<Rightarrow> error + string" where
  "readFile fs p =
     (case stat fs p of
        None \<Rightarrow> Inl (FsError ''ENOENT'' p)
      | Some (File content) \<Rightarrow> Inr content
      | Some nd \<Rightarrow> Inl (FsError ''EISDIR'' p))"

definition readdir :: "filesystem \<Rightarrow> string \<Rightarrow> error + (string \<times> node) list" where
  "readdir fs p =
     (case stat fs p of
        None \<Rightarrow> Inl (FsError ''ENOENT'' p)
      | Some (Directory children) \<Rightarrow> Inr children
      | Some nd \<Rightarrow> Inl (FsError ''ENOTDIR'' p))"

text \<open>
  Where a new entry for the path is made: under the real path of its parent, which must
  be a directory.
\<close>

definition create_target :: "filesystem \<Rightarrow> string \<Rightarrow> error + string list" where
  "create_target fs p =
     (case real_segments fs (dirname p) of
        None \<Rightarrow> Inl (FsError ''ENOENT'' p)
      | Some parent \<Rightarrow>
          (case walk fs parent of
             Some (Directory children) \<Rightarrow>
               (if basename p = [] \<or> map_of children (basename p) \<noteq> None
                then Inl (FsError ''ENOENT'' p)
                else Inr (parent @ [basename p]))
           | _ \<Rightarrow> Inl (FsError ''ENOTDIR'' p)))"

text \<open>
  \<open>fs.writeFile\<close>: an existing file (reached through links) gets the new content, a
  missing one is created. A link whose target is missing is reported as ENOENT.
\<close>

definition writeFile :: "filesystem \<Rightarrow> string \<Rightarrow> string \<Rightarrow> error + filesystem" where
  "writeFile fs p content =
     (case real_segments fs p of
        Some segs \<Rightarrow>
          (case walk fs segs of
             Some (File old) \<Rightarrow>
               (case put fs segs (File content) of
                  None \<Rightarrow> Inl (FsError ''EISDIR'' p)
                | Some fs' \<Rightarrow> Inr fs')
           | _ \<Rightarrow> Inl (FsError ''EISDIR'' p))
      | None \<Rightarrow>
          (case create_target fs p of
             Inl e \<Rightarrow> Inl e
           | Inr segs \<Rightarrow>
               (case put fs segs (File content) of
                  None \<Rightarrow> Inl (FsError ''ENOENT'' p)
                | Some fs' \<Rightarrow> Inr fs')))"

text \<open>\<open>fs.copyFile(src, dest)\<close> with the default mode, which overwrites \<open>dest\<close>.\<close>

definition copyFile :: "filesystem \<Rightarrow> string \<Rightarrow> string \<Rightarrow> error + filesystem" where
  "copyFile fs src dest =
     (case readFile fs src of
        Inl e \<Rightarrow> Inl e
      | Inr content \<Rightarrow> writeFile fs dest content)"

text \<open>
  The entry that \<open>rename\<close> works on: the last segment under the real path of the parent
  (a link in last position is not followed).
\<close>

definition entry_segments :: "filesystem \<Rightarrow> string \<Rightarrow> string list option" where
  "entry_segments fs p =
     (if basename p = [] then None
      else map_option (\<lambda>parent. parent @ [basename p]) (real_segments fs (dirname p)))"

text \<open>
  \<open>fs.rename(oldPath, newPath)\<close> as \<open>rename(2)\<close>: an existing file at \<open>newPath\<close> is
  replaced, an existing directory only if it is empty and \<open>oldPath\<close> is a directory; a
  directory cannot be moved into itself.
\<close>

definition rename :: "filesystem \<Rightarrow> string \<Rightarrow> string \<Rightarrow> error + filesystem" where
  "rename fs oldPath newPath =
     (case (entry_segments fs oldPath, entry_segments fs newPath) of
        (Some s, Some d) \<Rightarrow>
          (case walk fs s of
             None \<Rightarrow> Inl (FsError ''ENOENT'' oldPath)
           | Some nd \<Rightarrow>
               if s = d then Inr fs
               else if isDirectory nd \<and> prefix s d then Inl (FsError ''EINVAL'' oldPath)
               else
                 (case walk fs d of
                    Some (Directory children) \<Rightarrow>
                      if \<not> isDirectory nd then Inl (FsError ''EISDIR'' newPath)
                      else if children \<noteq> [] then Inl (FsError ''ENOTEMPTY'' newPath)
                      else
                        (case Option.bind (remove fs s) (\<lambda>fs1. put fs1 d nd) of
                           None \<Rightarrow> Inl (FsError ''ENOENT'' newPath)
                         | Some fs' \<Rightarrow> Inr fs')
                  | Some other \<Rightarrow>
                      if isDirectory nd then Inl (FsError ''ENOTDIR'' newPath)
                      else
                        (case Option.bind (remove fs s) (\<lambda>fs1. put fs1 d nd) of
                           None \<Rightarrow> Inl (FsError ''ENOENT'' newPath)
                         | Some fs' \<Rightarrow> Inr fs')
                  | None \<Rightarrow>
                      (case Option.bind (remove fs s) (\<lambda>fs1. put fs1 d nd) of
                         None \<Rightarrow> Inl (FsError ''ENOENT'' newPath)
                       | Some fs' \<Rightarrow> Inr fs')))
      | _ \<Rightarrow> Inl (FsError ''ENOENT'' oldPath))"

text \<open>
  \<open>fs.mkdir(p, { recursive: true })\<close>: the directories missing below the deepest
  existing ancestor are created; an existing directory is left as it is.
\<close>

fun mkdirs :: "(string \<times> node) list \<Rightarrow> string list \<Rightarrow> (string \<times> node) list option" where
  "mkdirs es [] = Some es"
| "mkdirs es (name # rest) =
     (case map_of es name of
        None \<Rightarrow> map_option (\<lambda>children. set_entry name (Directory children) es) (mkdirs [] rest)
      | Some (Directory children) \<Rightarrow>
          map_option (\<lambda>children'. set_entry name (Directory children') es) (mkdirs children rest)
      | Some nd \<Rightarrow> None)"

definition mkdir_recursive :: "filesystem \<Rightarrow> string \<Rightarrow> error + filesystem" where
  "mkdir_recursive fs p =
     (let segs = segments p
      in case find (\<lambda>k. real_segments fs (abs_of (take k segs)) \<noteq> None)
                (rev [0..<Suc (length segs)]) of
           None \<Rightarrow> Inl (FsError ''ENOENT'' p)
         | Some k \<Rightarrow>
             (case real_segments fs (abs_of (take k segs)) of
                None \<Rightarrow> Inl (FsError ''ENOENT'' p)
              | Some r \<Rightarrow>
                  (case mkdirs fs (r @ drop k segs) of
                     None \<Rightarrow> Inl (FsError ''EEXIST'' p)
                   | Some fs' \<Rightarrow> Inr fs')))"

section \<open>The path validator\<close>

text \<open>\<open>try { body } catch (error) { handler }\<close> on results.\<close>

definition try_catch :: "'e + 'a \<Rightarrow> ('e \<Rightarrow> 'e + 'a) \<Rightarrow> 'e + 'a" where
  "try_catch body handler = (case body of Inl e \<Rightarrow> handler e | Inr v \<Rightarrow> Inr v)"

text \<open>\<open>allowedDirectories.some(dir => p.startsWith(dir))\<close>\<close>

definition isAllowed :: "string list \<Rightarrow> string \<Rightarrow> bool" where
  "isAllowed allowedDirectories p = list_ex (\<lambda>dir. startsWith p dir) allowedDirectories"

definition validatePath :: "env \<Rightarrow> filesystem \<Rightarrow> string list \<Rightarrow> string \<Rightarrow> error + string" where
  "validatePath ev fs allowedDirectories requestedPath =
     (let expandedPath = expandHome ev requestedPath;
          absolute = (if isAbsolute expandedPath then resolve ev [expandedPath]
                      else resolve ev [cwd ev, expandedPath]);
          normalizedRequested = normalizePath absolute
      in if \<not> isAllowed allowedDirectories normalizedRequested
         then Inl (AccessDenied absolute)
         else
           try_catch
             (case realpath fs absolute of
                None \<Rightarrow> Inl (FsError ''ENOENT'' absolute)
              | Some realPath \<Rightarrow>
                  let normalizedReal = normalizePath realPath
                  in if \<not> isAllowed allowedDirectories normalizedReal
                     then Inl AccessDeniedSymlink
                     else Inr realPath)
             (\<lambda>error.
                let parentDir = dirname absolute
                in try_catch
                     (case realpath fs parentDir of
                        None \<Rightarrow> Inl (FsError ''ENOENT'' parentDir)
                      | Some realParentPath \<Rightarrow>
                          let normalizedParent = normalizePath realParentPath
                          in if \<not> isAllowed allowedDirectories normalizedParent
                             then Inl AccessDeniedParent
                             else Inr absolute)
                     (\<lambda>error'. Inl (ParentMissing parentDir))))"

text \<open>The errors that the specification calls \<open>AccessDenied\<close>.\<close>

fun is_AccessDenied :: "error \<Rightarrow> bool" where
  "is_AccessDenied (AccessDenied p) = True"
| "is_AccessDenied AccessDeniedSymlink = True"
| "is_AccessDenied AccessDeniedParent = True"
| "is_AccessDenied e = False"

section \<open>Start-up\<close>

datatype outcome = Exited nat | Serving "string list"

text \<open>
  The body of the arrow function of lines 46 to 59 (\<open>async () => { ... };\<close>): every
  argument must be a directory, otherwise \<open>process.exit(1)\<close>. \<open>None\<close> is the normal
  return.
\<close>

definition checkDirectories :: "env \<Rightarrow> filesystem \<Rightarrow> string list \<Rightarrow> outcome option" where
  "checkDirectories ev fs args =
     (if list_all (\<lambda>dir.
            case stat fs (resolve ev [expandHome ev dir]) of
              None \<Rightarrow> False
            | Some stats \<Rightarrow> isDirectory stats) args
      then None else Some (Exited 1))"

text \<open>
  The statements of the module in their order: the arguments are counted, the allowed
  directories computed, the handlers registered and \<open>runServer\<close> called. The arrow function
  above is an expression statement that nothing calls, so \<open>checkDirectories\<close> does not
  occur here.
\<close>

definition startup :: "env \<Rightarrow> filesystem \<Rightarrow> string list \<Rightarrow> outcome" where
  "startup ev fs args =
     (if args = [] then Exited 1
      else
        let allowedDirectories = map (\<lambda>dir. normalizePath (resolve ev [expandHome ev dir])) args
        in Serving allowedDirectories)"

section \<open>Applying edits to a file\<close>

lemma startsWith_length: "startsWith s p \<Longrightarrow> length p \<le> length s"
proof -
  assume "startsWith s p"
  then have "length (take (length p) s) = length p" by (simp add: startsWith_def)
  then show ?thesis by simp
qed

lemma indexOf_length: "indexOf s sub = Some i \<Longrightarrow> i + length sub \<le> length s"
proof (induction s arbitrary: i)
  case Nil
  then show ?case by (simp split: if_splits)
next
  case (Cons c cs)
  show ?case
  proof (cases "startsWith (c # cs) sub")
    case True
    then have "length sub \<le> length (c # cs)" by (rule startsWith_length)
    moreover from True Cons.prems have "i = 0" by simp
    ultimately show ?thesis by simp
  next
    case False
    with Cons.prems have "map_option Suc (indexOf cs sub) = Some i" by simp
    then obtain k where k: "indexOf cs sub = Some k" "i = Suc k" by blast
    from Cons.IH[OF k(1)] k(2) show ?thesis by simp
  qed
qed

lemma includes_str_length: "includes_str s sub \<Longrightarrow> length sub \<le> length s"
proof -
  assume "includes_str s sub"
  then obtain i where "indexOf s sub = Some i" by (auto simp: includes_str_def)
  then have "i + length sub \<le> length s" by (rule indexOf_length)
  then show ?thesis by simp
qed

text \<open>\<open>while (diff.includes('`'.repeat(numBackticks))) numBackticks++\<close>\<close>

function numBackticks_loop :: "string \<Rightarrow> nat \<Rightarrow> nat" where
  "numBackticks_loop diff numBackticks =
     (if includes_str diff (replicate numBackticks BACKTICK)
      then numBackticks_loop diff (Suc numBackticks)
      else numBackticks)"
  by pat_completeness auto
termination
proof (relation "measure (\<lambda>(diff, n). Suc (length diff) - n)")
  show "wf (measure (\<lambda>(diff, n). Suc (length diff) - n))" by simp
next
  fix diff :: string and numBackticks :: nat
  assume "includes_str diff (replicate numBackticks BACKTICK)"
  then have "length (replicate numBackticks BACKTICK) \<le> length diff"
    by (rule includes_str_length)
  then have "numBackticks \<le> length diff" by simp
  then show "((diff, Suc numBackticks), (diff, numBackticks))
      \<in> measure (\<lambda>(diff, n). Suc (length diff) - n)"
    by simp
qed

text \<open>
  \<open>createTwoFilesPatch\<close> of the \<open>diff\<close> package is a parameter: old and new file name,
  old and new text, old and new header.
\<close>

type_synonym patcher = "string \<Rightarrow> string \<Rightarrow> string \<Rightarrow> string \<Rightarrow> string \<Rightarrow> string \<Rightarrow> string"

definition createUnifiedDiff :: "patcher \<Rightarrow> string \<Rightarrow> string \<Rightarrow> string \<Rightarrow> string" where
  "createUnifiedDiff createTwoFilesPatch originalContent newContent filepath =
     (let normalizedOriginal = normalizeLineEndings originalContent;
          normalizedNew = normalizeLineEndings newContent
      in createTwoFilesPatch filepath filepath normalizedOriginal normalizedNew
           ''original'' ''modified'')"

definition applyFileEdits ::
  "patcher \<Rightarrow> filesystem \<Rightarrow> string \<Rightarrow> edit list \<Rightarrow> bool \<Rightarrow> (error + string) \<times> filesystem" where
  "applyFileEdits createTwoFilesPatch fs filePath edits dryRun =
     (case readFile fs filePath of
        Inl err \<Rightarrow> (Inl err, fs)
      | Inr raw \<Rightarrow>
          let content = normalizeLineEndings raw
          in case applyEdits content edits of
               Inl err \<Rightarrow> (Inl err, fs)
             | Inr modifiedContent \<Rightarrow>
                 let diff = createUnifiedDiff createTwoFilesPatch content modifiedContent filePath;
                     numBackticks = numBackticks_loop diff 3;
                     formattedDiff = replicate numBackticks BACKTICK @ ''diff'' @ [LF] @ diff
                                     @ replicate numBackticks BACKTICK @ [LF, LF]
                 in if \<not> dryRun
                    then (case writeFile fs filePath modifiedContent of
                            Inl err \<Rightarrow> (Inl err, fs)
                          | Inr fs' \<Rightarrow> (Inr formattedDiff, fs'))
                    else (Inr formattedDiff, fs))"

text \<open>The \<open>edit_file\<close> case of the request handler.\<close>

definition edit_file ::
  "patcher \<Rightarrow> env \<Rightarrow> filesystem \<Rightarrow> string list \<Rightarrow> string \<Rightarrow> edit list \<Rightarrow> bool
    \<Rightarrow> (error + string) \<times> filesystem" where
  "edit_file createTwoFilesPatch ev fs allowedDirectories path edits dryRun =
     (case validatePath ev fs allowedDirectories path of
        Inl err \<Rightarrow> (Inl err, fs)
      | Inr validPath \<Rightarrow> applyFileEdits createTwoFilesPatch fs validPath edits dryRun)"

section \<open>Moving and copying\<close>

datatype reply = FileMoved string string | FileCopied string string | DirectoryCopied string string

definition move_file ::
  "env \<Rightarrow> filesystem \<Rightarrow> string list \<Rightarrow> string \<Rightarrow> string \<Rightarrow> (error + reply) \<times> filesystem" where
  "move_file ev fs allowedDirectories source destination =
     (case validatePath ev fs allowedDirectories source of
        Inl err \<Rightarrow> (Inl err, fs)
      | Inr validSourcePath \<Rightarrow>
          (case validatePath ev fs allowedDirectories destination of
             Inl err \<Rightarrow> (Inl err, fs)
           | Inr validDestPath \<Rightarrow>
               (case rename fs validSourcePath validDestPath of
                  Inl err \<Rightarrow> (Inl err, fs)
                | Inr fs' \<Rightarrow> (Inr (FileMoved source destination), fs'))))"

text \<open>
  \<open>try { await fs.access(validDestPath); throw new Error(`El destino ya existe: ...`) }
  catch (error) { }\<close>: the body ends in a rejection of \<open>access\<close> or in the \<open>throw\<close>, and
  the handler is empty.
\<close>

definition destination_check :: "filesystem \<Rightarrow> string \<Rightarrow> string \<Rightarrow> error + unit" where
  "destination_check fs validDestPath destination =
     try_catch
       (if access fs validDestPath then Inl (AlreadyExists destination)
        else Inl (FsError ''ENOENT'' validDestPath))
       (\<lambda>error. Inr ())"

definition copy_file ::
  "env \<Rightarrow> filesystem \<Rightarrow> string list \<Rightarrow> string \<Rightarrow> string \<Rightarrow> (error + reply) \<times> filesystem" where
  "copy_file ev fs allowedDirectories source destination =
     (case validatePath ev fs allowedDirectories source of
        Inl err \<Rightarrow> (Inl err, fs)
      | Inr validSourcePath \<Rightarrow>
     (case validatePath ev fs allowedDirectories destination of
        Inl err \<Rightarrow> (Inl err, fs)
      | Inr validDestPath \<Rightarrow>
     (case try_catch
             (if access fs validSourcePath then Inr ()
              else Inl (FsError ''ENOENT'' validSourcePath))
             (\<lambda>error. Inl (SourceMissing source)) of
        Inl err \<Rightarrow> (Inl err, fs)
      | Inr u \<Rightarrow>
     (case destination_check fs validDestPath destination of
        Inl err \<Rightarrow> (Inl err, fs)
      | Inr u' \<Rightarrow>
     (case stat fs validSourcePath of
        None \<Rightarrow> (Inl (FsError ''ENOENT'' validSourcePath), fs)
      | Some stats \<Rightarrow>
          if isDirectory stats then (Inl (SourceIsDirectory source), fs)
          else
            (case copyFile fs validSourcePath validDestPath of
               Inl err \<Rightarrow> (Inl err, fs)
             | Inr fs' \<Rightarrow> (Inr (FileCopied source destination), fs')))))))"

text \<open>
  \<open>copyDir\<close> calls itself for every subdirectory, and a destination inside the source
  grows while it is copied, so the recursion is bounded by fuel: \<open>None\<close> is the run that
  has not returned within it. An error leaves what was copied before it.
\<close>

fun copyDir ::
    "nat \<Rightarrow> filesystem \<Rightarrow> string \<Rightarrow> string \<Rightarrow> bool \<Rightarrow> ((error + unit) \<times> filesystem) option"
  and copyEntries ::
    "nat \<Rightarrow> filesystem \<Rightarrow> string \<Rightarrow> string \<Rightarrow> bool \<Rightarrow> (string \<times> node) list
      \<Rightarrow> ((error + unit) \<times> filesystem) option" where
  "copyDir 0 fs src dest recursive = None"
| "copyDir (Suc fuel) fs src dest recursive =
     (case mkdir_recursive fs dest of
        Inl err \<Rightarrow> Some (Inl err, fs)
      | Inr fs1 \<Rightarrow>
          (case readdir fs1 src of
             Inl err \<Rightarrow> Some (Inl err, fs1)
           | Inr entries \<Rightarrow>
               (case copyEntries fuel fs1 src dest recursive entries of
                  None \<Rightarrow> None
                | Some (Inl err, fs2) \<Rightarrow> Some (Inl err, fs2)
                | Some (Inr u, fs2) \<Rightarrow>
                    (case stat fs2 src of
                       None \<Rightarrow> Some (Inl (FsError ''ENOENT'' src), fs2)
                     | Some stats \<Rightarrow> Some (Inr (), fs2)))))"
| "copyEntries fuel fs src dest recursive [] = Some (Inr (), fs)"
| "copyEntries fuel fs src dest recursive (entry # entries) =
     (let srcPath = join_path [src, fst entry];
          destPath = join_path [dest, fst entry]
      in if isDirectory (snd entry)
         then
           (if recursive
            then
              (case copyDir fuel fs srcPath destPath recursive of
                 None \<Rightarrow> None
               | Some (Inl err, fs') \<Rightarrow> Some (Inl err, fs')
               | Some (Inr u, fs') \<Rightarrow> copyEntries fuel fs' src dest recursive entries)
            else copyEntries fuel fs src dest recursive entries)
         else
           (case copyFile fs srcPath destPath of
              Inl err \<Rightarrow> Some (Inl err, fs)
            | Inr fs' \<Rightarrow>
                (case stat fs' srcPath of
                   None \<Rightarrow> Some (Inl (FsError ''ENOENT'' srcPath), fs')
                 | Some stats \<Rightarrow> copyEntries fuel fs' src dest recursive entries)))"

definition copy_directory ::
  "nat \<Rightarrow> env \<Rightarrow> filesystem \<Rightarrow> string list \<Rightarrow> string \<Rightarrow> string \<Rightarrow> bool
    \<Rightarrow> ((error + reply) \<times> filesystem) option" where
  "copy_directory fuel ev fs allowedDirectories source destination recursive =
     (case validatePath ev fs allowedDirectories source of
        Inl err \<Rightarrow> Some (Inl err, fs)
      | Inr validSourcePath \<Rightarrow>
     (case validatePath ev fs allowedDirectories destination of
        Inl err \<Rightarrow> Some (Inl err, fs)
      | Inr validDestPath \<Rightarrow>
     (case try_catch
             (case stat fs validSourcePath of
                None \<Rightarrow> Inl (FsError ''ENOENT'' validSourcePath)
              | Some stats \<Rightarrow>
                  if \<not> isDirectory stats then Inl (SourceNotDirectory source) else Inr ())
             (\<lambda>error. Inl (SourceDirMissing source)) of
        Inl err \<Rightarrow> Some (Inl err, fs)
      | Inr u \<Rightarrow>
     (case destination_check fs validDestPath destination of
        Inl err \<Rightarrow> Some (Inl err, fs)
      | Inr u' \<Rightarrow>
     (case copyDir fuel fs validSourcePath validDestPath recursive of
        None \<Rightarrow> None
      | Some (Inl err, fs') \<Rightarrow> Some (Inl err, fs')
      | Some (Inr u'', fs') \<Rightarrow> Some (Inr (DirectoryCopied source destination), fs'))))))"

section \<open>Searching\<close>

text \<open>
  \<open>minimatch(path, pattern, { dot: true })\<close> of the \<open>minimatch\<close> package, for patterns
  built from literal characters, \<open>*\<close> and \<open>/\<close>, with an optional leading \<open>!\<close> or
  \<open>#\<close>; braces, brackets, question marks, parentheses and backslashes are outside the
  model. A pattern is cut at its slashes into parts: \<open>**\<close> alone is a globstar, a part
  with a star is matched as \<open>[^/]*?\<close> per star, any other part is compared as a string.
\<close>

datatype part = GLOBSTAR | Literal string | Magic string

definition parse :: "string \<Rightarrow> part" where
  "parse s =
     (if s = ''**'' then GLOBSTAR
      else if CHR ''*'' \<in> set s then Magic s
      else Literal s)"

text \<open>\<open>s.split(/\/+/)\<close>: a run of slashes separates once.\<close>

definition slashSplit :: "string \<Rightarrow> string list" where
  "slashSplit s =
     (let xs = split_slash s
      in if length xs \<le> 2 then xs
         else hd xs # filter (\<lambda>a. a \<noteq> []) (butlast (tl xs)) @ [last xs])"

fun star_match :: "string \<Rightarrow> string \<Rightarrow> bool" where
  "star_match [] f = (f = [])"
| "star_match (p # ps) [] = (p = CHR ''*'' \<and> star_match ps [])"
| "star_match (p # ps) (c # cs) =
     (if p = CHR ''*'' then star_match ps (c # cs) \<or> star_match (p # ps) cs
      else p = c \<and> star_match ps cs)"

text \<open>
  A part with magic never matches the empty string, and one that starts with a star
  matches neither \<open>.\<close> nor \<open>..\<close> (all that is left of the dot rule under \<open>dot: true\<close>).
\<close>

fun part_matches :: "part \<Rightarrow> string \<Rightarrow> bool" where
  "part_matches (Literal p) f = (f = p)"
| "part_matches (Magic p) f =
     (f \<noteq> [] \<and> (if hd p = CHR ''*'' then f \<noteq> ''.'' \<and> f \<noteq> ''..'' else True)
      \<and> star_match p f)"
| "part_matches GLOBSTAR f = False"

text \<open>
  \<open>matchOne(file, pattern, partial = false)\<close>. A globstar in last position swallows the
  rest of the file parts; elsewhere it tries the rest of the pattern at every file part,
  and the loop \<open>while (fr < fl)\<close> of the source is \<open>globstar_loop\<close>. When the file parts
  run out before the pattern the result is \<open>partial\<close>, that is false.
\<close>

fun matchOne :: "string list \<Rightarrow> part list \<Rightarrow> bool"
  and globstar_loop :: "string list \<Rightarrow> part list \<Rightarrow> bool" where
  "matchOne [] [] = True"
| "matchOne [] (p # ps) = False"
| "matchOne (f # fs) [] = (fs = [] \<and> f = [])"
| "matchOne (f # fs) (p # ps) =
     (if p = GLOBSTAR
      then (if ps = [] then list_all (\<lambda>x. x \<noteq> ''.'' \<and> x \<noteq> ''..'') (f # fs)
            else globstar_loop (f # fs) ps)
      else part_matches p f \<and> matchOne fs ps)"
| "globstar_loop [] ps = False"
| "globstar_loop (swallowee # fs) ps =
     (matchOne (swallowee # fs) ps
      \<or> (swallowee \<noteq> ''.'' \<and> swallowee \<noteq> ''..'' \<and> globstar_loop fs ps))"

definition minimatch :: "string \<Rightarrow> string \<Rightarrow> bool" where
  "minimatch p pattern =
     (if pattern \<noteq> [] \<and> hd pattern = CHR ''#'' then False
      else
        let negate = odd (length (takeWhile (\<lambda>c. c = CHR ''!'') pattern));
            pat = dropWhile (\<lambda>c. c = CHR ''!'') pattern;
            hit = matchOne (slashSplit p) (map parse (slashSplit pat))
        in hit \<noteq> negate)"

text \<open>\<open>toLowerCase\<close> on the code units below 256.\<close>

definition toLowerCase_char :: "char \<Rightarrow> char" where
  "toLowerCase_char c =
     (let n = (of_char c :: nat)
      in if (65 \<le> n \<and> n \<le> 90) \<or> (192 \<le> n \<and> n \<le> 222 \<and> n \<noteq> 215)
         then char_of (n + 32) else c)"

definition toLowerCase :: "string \<Rightarrow> string" where
  "toLowerCase s = map toLowerCase_char s"

text \<open>\<open>pattern.includes('*') ? pattern : `**/${pattern}/**`\<close>\<close>

definition globPattern :: "string \<Rightarrow> string" where
  "globPattern pattern =
     (if includes_str pattern ''*'' then pattern else ''**/'' @ pattern @ ''/**'')"

definition shouldExclude :: "string list \<Rightarrow> string \<Rightarrow> bool" where
  "shouldExclude excludePatterns relativePath =
     list_ex (\<lambda>pattern. minimatch relativePath (globPattern pattern)) excludePatterns"

text \<open>
  The inner function \<open>search\<close> on the entries that \<open>readdir(currentPath)\<close> returned. The
  paths it is called with are real paths, so the entries of a subdirectory are the
  children of its node. An entry whose validation throws is skipped by the \<open>catch\<close>.
  The result is what was pushed to \<open>results\<close>, in order.
\<close>

fun search ::
  "env \<Rightarrow> filesystem \<Rightarrow> string list \<Rightarrow> string \<Rightarrow> string \<Rightarrow> string list \<Rightarrow> string
    \<Rightarrow> (string \<times> node) list \<Rightarrow> string list" where
  "search ev fs allowedDirectories rootPath pattern excludePatterns currentPath [] = []"
| "search ev fs allowedDirectories rootPath pattern excludePatterns currentPath
     ((name, nd) # entries) =
     (let fullPath = join_path [currentPath, name]
      in (case validatePath ev fs allowedDirectories fullPath of
            Inl error \<Rightarrow> []
          | Inr valid \<Rightarrow>
              let relativePath = relative ev rootPath fullPath
              in if shouldExclude excludePatterns relativePath then []
                 else
                   (if includes_str (toLowerCase name) (toLowerCase pattern)
                    then [fullPath] else [])
                   @ (case nd of
                        Directory children \<Rightarrow>
                          search ev fs allowedDirectories rootPath pattern excludePatterns
                            fullPath children
                      | _ \<Rightarrow> []))
         @ search ev fs allowedDirectories rootPath pattern excludePatterns currentPath entries)"

definition searchFiles ::
  "env \<Rightarrow> filesystem \<Rightarrow> string list \<Rightarrow> string \<Rightarrow> string \<Rightarrow> string list \<Rightarrow> error + string list" where
  "searchFiles ev fs allowedDirectories rootPath pattern excludePatterns =
     (case readdir fs rootPath of
        Inl err \<Rightarrow> Inl err
      | Inr entries \<Rightarrow>
          Inr (search ev fs allowedDirectories rootPath pattern excludePatterns rootPath entries))"

text \<open>The \<open>search_files\<close> case of the request handler.\<close>

definition search_files ::
  "env \<Rightarrow> filesystem \<Rightarrow> string list \<Rightarrow> string \<Rightarrow> string \<Rightarrow> string list \<Rightarrow> error + string list" where
  "search_files ev fs allowedDirectories path pattern excludePatterns =
     (case validatePath ev fs allowedDirectories path of
        Inl err \<Rightarrow> Inl err
      | Inr validPath \<Rightarrow> searchFiles ev fs allowedDirectories validPath pattern excludePatterns)"

text \<open>
  The directories that the search lists with \<open>readdir\<close>, in order: the same walk as
  \<open>search\<close>, recording the path of each call of the inner function.
\<close>

fun visited ::
  "env \<Rightarrow> filesystem \<Rightarrow> string list \<Rightarrow> string \<Rightarrow> string list \<Rightarrow> string
    \<Rightarrow> (string \<times> node) list \<Rightarrow> string list" where
  "visited ev fs allowedDirectories rootPath excludePatterns currentPath [] = []"
| "visited ev fs allowedDirectories rootPath excludePatterns currentPath ((name, nd) # entries) =
     (let fullPath = join_path [currentPath, name]
      in (case validatePath ev fs allowedDirectories fullPath of
            Inl error \<Rightarrow> []
          | Inr valid \<Rightarrow>
              if shouldExclude excludePatterns (relative ev rootPath fullPath) then []
              else
                (case nd of
                   Directory children \<Rightarrow>
                     fullPath # visited ev fs allowedDirectories rootPath excludePatterns
                                  fullPath children
                 | _ \<Rightarrow> []))
         @ visited ev fs allowedDirectories rootPath excludePatterns currentPath entries)"

section \<open>Auxiliary notions\<close>

text \<open>
  Two nodes (or two missing nodes) of the same kind: both files, both directories, or
  links with the same target. Path resolution sees no more of a node.
\<close>

fun same_kind :: "node option \<Rightarrow> node option \<Rightarrow> bool" where
  "same_kind None None = True"
| "same_kind (Some (File a)) (Some (File b)) = True"
| "same_kind (Some (Directory a)) (Some (Directory b)) = True"
| "same_kind (Some (Symlink a)) (Some (Symlink b)) = (a = b)"
| "same_kind a b = False"

text \<open>
  The window of the buffer's lines that starts at line \<open>i\<close> matches the search lines:
  it lies within the buffer and every search line equals its counterpart once both are
  trimmed.
\<close>

definition window_matches :: "string list \<Rightarrow> string list \<Rightarrow> nat \<Rightarrow> bool" where
  "window_matches searchLines bufferLines i =
     (i + length searchLines \<le> length bufferLines
      \<and> (\<forall>j<length searchLines. trim (searchLines ! j) = trim (bufferLines ! (i + j))))"

section \<open>Concrete inputs\<close>

definition ev_posix :: env where
  "ev_posix = \<lparr>homedir = ''/home/user'', cwd = ''/home/user''\<rparr>"

text \<open>An allowed directory that holds a link to a file outside it.\<close>

definition fs_symlink :: filesystem where
  "fs_symlink =
     [(''sandbox'', Directory [(''link'', Symlink ''/etc/passwd'')]),
      (''etc'', Directory [(''passwd'', File ''root:x:0:0'')])]"

text \<open>The allowed directory \<open>/a/b\<close> and its sibling \<open>/a/bc\<close>.\<close>

definition fs_sibling :: filesystem where
  "fs_sibling =
     [(''a'', Directory [(''b'', Directory []),
                         (''bc'', Directory [(''secret.txt'', File ''s3cret'')])])]"

text \<open>Two files and two directories, each pair with a source and an existing destination.\<close>

definition fs_copy :: filesystem where
  "fs_copy =
     [(''sandbox'',
       Directory
         [(''a.txt'', File ''new''), (''b.txt'', File ''old''),
          (''d'', Directory [(''x'', File ''new'')]),
          (''e'', Directory [(''x'', File ''old'')])])]"

text \<open>A project with a \<open>build\<close> directory at the top and one further down.\<close>

definition proj_entries :: "(string \<times> node) list" where
  "proj_entries =
     [(''build'', Directory [(''out.js'', File ''js'')]),
      (''src'', Directory [(''build'', Directory [(''build.log'', File ''log'')]),
                           (''main.ts'', File ''ts'')])]"

definition fs_proj :: filesystem where
  "fs_proj = [(''proj'', Directory proj_entries)]"

text \<open>A patcher for concrete runs, and files to edit.\<close>

definition plain_patch :: patcher where
  "plain_patch oldFileName newFileName oldStr newStr oldHeader newHeader = oldStr @ newStr"

definition fs_edit :: filesystem where
  "fs_edit = [(''sandbox'', Directory [(''a.txt'', File ''line1\<newline>line2\<newline>'')])]"

definition fs_crlf :: filesystem where
  "fs_crlf = [(''sandbox'', Directory [(''w.txt'', File [CHR ''a'', CR, CHR ''b'', CR, LF, CHR ''c''])])]"

text \<open>A log file directly under the search root and one in a subdirectory.\<close>

definition fs_logs :: filesystem where
  "fs_logs =
     [(''proj'',
       Directory [(''top.log'', File ''t''),
                  (''sub'', Directory [(''deep.log'', File ''d'')])])]"

section \<open>The path validator: results\<close>

subsection \<open>Lemmas\<close>

text \<open>
  What the first containment check does, and the only errors the validator returns: the
  errors of the second and third check never leave it.
\<close>

lemma validatePath_outside_prefixes:
  assumes "absolute = (if isAbsolute (expandHome ev requestedPath)
                       then resolve ev [expandHome ev requestedPath]
                       else resolve ev [cwd ev, expandHome ev requestedPath])"
    and "\<not> isAllowed allowedDirectories (normalizePath absolute)"
  shows "validatePath ev fs allowedDirectories requestedPath = Inl (AccessDenied absolute)"
  using assms by (simp add: validatePath_def Let_def)

lemma validatePath_errors:
  assumes "validatePath ev fs allowedDirectories requestedPath = Inl err"
  shows "(\<exists>absolute. err = AccessDenied absolute) \<or> (\<exists>parentDir. err = ParentMissing parentDir)"
  using assms
  by (auto simp: validatePath_def Let_def try_catch_def split: if_splits option.splits sum.splits)

lemma validatePath_access_denied_first_check:
  assumes "validatePath ev fs allowedDirectories requestedPath = Inl err"
    and "is_AccessDenied err"
  shows "\<exists>absolute. err = AccessDenied absolute"
proof -
  from validatePath_errors[OF assms(1)] consider
    absolute where "err = AccessDenied absolute" | parentDir where "err = ParentMissing parentDir"
    by blast
  then show ?thesis
  proof cases
    case 1
    then show ?thesis by blast
  next
    case 2
    with assms(2) show ?thesis by simp
  qed
qed

subsection \<open>Claims\<close>

text \<open>
  C1. A path that exists and whose real path lies outside every allowed directory should
  be refused with an access-denied error. The \<open>throw\<close> of the second containment check
  stands inside the \<open>try\<close> whose \<open>catch\<close> goes on to check the parent directory, so the
  link \<open>/sandbox/link\<close> to \<open>/etc/passwd\<close> is accepted: its real path is outside
  \<open>/sandbox\<close>, its literal path passes the first check, its parent \<open>/sandbox\<close> passes the
  third, and \<open>validatePath\<close> returns the link, through which \<open>readFile\<close> reads the file
  outside.
\<close>

theorem validatePath_admits_escaping_symlink:
  "realpath fs_symlink ''/sandbox/link'' = Some ''/etc/passwd''
   \<and> \<not> isAllowed [''/sandbox''] (normalizePath ''/etc/passwd'')
   \<and> isAllowed [''/sandbox''] (normalizePath ''/sandbox/link'')
   \<and> validatePath ev_posix fs_symlink [''/sandbox''] ''/sandbox/link'' = Inr ''/sandbox/link''
   \<and> readFile fs_symlink ''/sandbox/link'' = Inr ''root:x:0:0''"
  by code_simp

text \<open>
  C2. A path outside every allowed directory should be refused, also \<open>/a/bc\<close> when
  \<open>/a/b\<close> is allowed. The containment check is \<open>startsWith\<close> on the strings, so
  \<open>/a/bc\<close> and what is below it are accepted.
\<close>

theorem validatePath_admits_prefix_sibling:
  "startsWith ''/a/bc'' ''/a/b''
   \<and> validatePath ev_posix fs_sibling [''/a/b''] ''/a/bc'' = Inr ''/a/bc''
   \<and> validatePath ev_posix fs_sibling [''/a/b''] ''/a/bc/secret.txt''
       = Inr ''/a/bc/secret.txt''"
  by code_simp

section \<open>Moving and copying: results\<close>

text \<open>
  C3. \<open>move_file\<close>, \<open>copy_file\<close> and \<open>copy_directory\<close> should fail when the destination
  exists and change nothing. \<open>move_file\<close> has no check and \<open>rename\<close> replaces the
  destination; in the other two the \<open>throw\<close> for an existing destination is caught by
  the empty \<open>catch\<close> around it. Each of the three calls below succeeds on an existing
  destination and overwrites it.
\<close>

theorem existing_destination_overwritten:
  "access fs_copy ''/sandbox/b.txt'' \<and> access fs_copy ''/sandbox/e''
   \<and> move_file ev_posix fs_copy [''/sandbox''] ''/sandbox/a.txt'' ''/sandbox/b.txt''
       = (Inr (FileMoved ''/sandbox/a.txt'' ''/sandbox/b.txt''),
          [(''sandbox'',
            Directory
              [(''b.txt'', File ''new''),
               (''d'', Directory [(''x'', File ''new'')]),
               (''e'', Directory [(''x'', File ''old'')])])])
   \<and> copy_file ev_posix fs_copy [''/sandbox''] ''/sandbox/a.txt'' ''/sandbox/b.txt''
       = (Inr (FileCopied ''/sandbox/a.txt'' ''/sandbox/b.txt''),
          [(''sandbox'',
            Directory
              [(''a.txt'', File ''new''), (''b.txt'', File ''new''),
               (''d'', Directory [(''x'', File ''new'')]),
               (''e'', Directory [(''x'', File ''old'')])])])
   \<and> copy_directory 1 ev_posix fs_copy [''/sandbox''] ''/sandbox/d'' ''/sandbox/e'' True
       = Some (Inr (DirectoryCopied ''/sandbox/d'' ''/sandbox/e''),
          [(''sandbox'',
            Directory
              [(''a.txt'', File ''new''), (''b.txt'', File ''old''),
               (''d'', Directory [(''x'', File ''new'')]),
               (''e'', Directory [(''x'', File ''new'')])])])"
  by code_simp

section \<open>Start-up: results\<close>

text \<open>
  C4. An argument that is not an existing directory should stop the process before it
  serves. The check is written as a function that is never called: on a file system
  without \<open>/missing\<close> the check would exit, and the start-up serves with \<open>/missing\<close>
  as allowed directory.
\<close>

theorem startup_accepts_missing_directory:
  "stat [] ''/missing'' = None
   \<and> checkDirectories ev_posix [] [''/missing''] = Some (Exited 1)
   \<and> startup ev_posix [] [''/missing''] = Serving [''/missing'']"
  by code_simp

section \<open>The edit engine: results\<close>

subsection \<open>Lemmas\<close>

lemma applyEdits_append:
  "applyEdits buf (pre @ es) =
     (case applyEdits buf pre of Inl err \<Rightarrow> Inl err | Inr buf' \<Rightarrow> applyEdits buf' es)"
proof (induction pre arbitrary: buf)
  case Nil
  show ?case by simp
next
  case (Cons e pre)
  show ?case
  proof (cases "applyEdit buf e")
    case (Inl err)
    then show ?thesis by simp
  next
    case (Inr b)
    then show ?thesis using Cons.IH[of b] by simp
  qed
qed

lemma applyEdit_no_match:
  assumes "\<not> includes_str buf (normalizeLineEndings (oldText e))"
    and "findMatch (split_nl (normalizeLineEndings (oldText e))) (split_nl buf) = None"
  shows "applyEdit buf e = Inl (EditNotFound (oldText e))"
  using assms by (simp add: applyEdit_def Let_def)

lemma map_of_set_entry: "map_of (set_entry name nd es) name = Some nd"
  by (induction es) auto

lemma put_over_node:
  "walk es segs = Some old \<Longrightarrow> segs \<noteq> [] \<Longrightarrow>
   \<exists>es'. put es segs nd = Some es' \<and> walk es' segs = Some nd"
proof (induction es segs arbitrary: old rule: walk.induct)
  case (1 es)
  then show ?case by simp
next
  case (2 es name rest)
  from "2.prems"(1) obtain x where x: "map_of es name = Some x"
    by (auto split: option.splits)
  show ?case
  proof (cases "rest = []")
    case True
    then show ?thesis by (simp add: map_of_set_entry)
  next
    case False
    with "2.prems"(1) x obtain children where ch: "x = Directory children"
      and w: "walk children rest = Some old"
      by (auto split: node.splits)
    from "2.IH"[OF x False ch w False] obtain ch' where
      p: "put children rest nd = Some ch'" and w': "walk ch' rest = Some nd" by blast
    from False x ch p w' show ?thesis by (simp add: map_of_set_entry)
  qed
qed

lemma readFile_Inr:
  assumes "readFile fs p = Inr raw"
  shows "\<exists>segs. real_segments fs p = Some segs \<and> walk fs segs = Some (File raw)"
  using assms by (auto simp: readFile_def stat_def split: option.splits node.splits)

lemma writeFile_existing:
  assumes "readFile fs p = Inr raw"
  shows "\<exists>segs fs'. real_segments fs p = Some segs \<and> writeFile fs p content = Inr fs'
           \<and> put fs segs (File content) = Some fs' \<and> walk fs' segs = Some (File content)"
proof -
  from readFile_Inr[OF assms] obtain segs where
    rs: "real_segments fs p = Some segs" and w: "walk fs segs = Some (File raw)" by blast
  from w have "segs \<noteq> []" by auto
  from put_over_node[OF w this, of "File content"] obtain fs' where
    p: "put fs segs (File content) = Some fs'" and w': "walk fs' segs = Some (File content)"
    by blast
  from rs w p have "writeFile fs p content = Inr fs'" by (simp add: writeFile_def)
  with rs p w' show ?thesis by blast
qed

lemma same_kind_refl: "same_kind n n"
proof (cases n)
  case None
  then show ?thesis by simp
next
  case (Some v)
  then show ?thesis by (cases v) simp_all
qed

lemma same_kind_NoneD: "same_kind None b \<Longrightarrow> b = None"
  by (cases b) simp_all

lemma same_kind_FileD: "same_kind (Some (File x)) b \<Longrightarrow> \<exists>y. b = Some (File y)"
proof (cases b)
  case None
  assume "same_kind (Some (File x)) b"
  with None show ?thesis by simp
next
  case (Some v)
  assume "same_kind (Some (File x)) b"
  with Some show ?thesis by (cases v) simp_all
qed

lemma same_kind_DirectoryD: "same_kind (Some (Directory x)) b \<Longrightarrow> \<exists>y. b = Some (Directory y)"
proof (cases b)
  case None
  assume "same_kind (Some (Directory x)) b"
  with None show ?thesis by simp
next
  case (Some v)
  assume "same_kind (Some (Directory x)) b"
  with Some show ?thesis by (cases v) simp_all
qed

lemma same_kind_SymlinkD: "same_kind (Some (Symlink x)) b \<Longrightarrow> b = Some (Symlink x)"
proof (cases b)
  case None
  assume "same_kind (Some (Symlink x)) b"
  with None show ?thesis by simp
next
  case (Some v)
  assume "same_kind (Some (Symlink x)) b"
  with Some show ?thesis by (cases v) simp_all
qed

lemma map_of_set_entry_other: "k \<noteq> name \<Longrightarrow> map_of (set_entry name nd es) k = map_of es k"
  by (induction es) auto

lemma walk_put_kind:
  "walk es segs = Some (File c) \<Longrightarrow> put es segs (File c') = Some es' \<Longrightarrow>
   same_kind (walk es q) (walk es' q)"
proof (induction q arbitrary: es segs es')
  case Nil
  show ?case by simp
next
  case (Cons name rest)
  from Cons.prems(1) obtain s srest where segs: "segs = s # srest"
    by (cases segs) auto
  from Cons.prems(1) segs obtain x where x: "map_of es s = Some x"
    by (auto split: option.splits)
  show ?case
  proof (cases "name = s")
    case False
    from Cons.prems(2) segs x obtain y where es': "es' = set_entry s y es"
      by (auto split: if_splits node.splits)
    from False have "map_of es' name = map_of es name"
      unfolding es' by (simp add: map_of_set_entry_other)
    then have "walk es' (name # rest) = walk es (name # rest)" by simp
    then show ?thesis by (simp only: same_kind_refl)
  next
    case True
    show ?thesis
    proof (cases "srest = []")
      case srest: True
      from Cons.prems(1) segs srest x have xf: "x = File c" by simp
      from Cons.prems(2) segs srest have "es' = set_entry s (File c') es" by simp
      then have m: "map_of es' s = Some (File c')" by (simp add: map_of_set_entry)
      from True x xf m show ?thesis by simp
    next
      case srest: False
      from Cons.prems(1) segs srest x obtain ch where xd: "x = Directory ch"
        and w: "walk ch srest = Some (File c)"
        by (auto split: node.splits)
      from Cons.prems(2) segs srest x xd obtain ch' where p: "put ch srest (File c') = Some ch'"
        and es': "es' = set_entry s (Directory ch') es"
        by auto
      from es' have m: "map_of es' s = Some (Directory ch')" by (simp add: map_of_set_entry)
      show ?thesis
      proof (cases "rest = []")
        case True
        with \<open>name = s\<close> x xd m show ?thesis by simp
      next
        case False
        with \<open>name = s\<close> x xd have e1: "walk es (name # rest) = walk ch rest" by simp
        from False \<open>name = s\<close> m have e2: "walk es' (name # rest) = walk ch' rest" by simp
        from Cons.IH[OF w p] show ?thesis by (simp only: e1 e2)
      qed
    qed
  qed
qed

lemma realpath_from_same_kind:
  assumes "\<And>q. same_kind (walk fs q) (walk fs' q)"
  shows "realpath_from fs' fuel cur rest = realpath_from fs fuel cur rest"
  using assms
proof (induction fs fuel cur rest rule: realpath_from.induct)
  case (1 fs fuel cur)
  show ?case by simp
next
  case (2 fs fuel cur c rest)
  note IH = "2.IH" and sh = "2.prems"
  show ?case
  proof (cases "c = [] \<or> c = ''.''")
    case True
    with IH(1)[OF True sh] show ?thesis by simp
  next
    case nd: False
    show ?thesis
    proof (cases "c = ''..''")
      case True
      with nd IH(2)[OF nd True sh] show ?thesis by simp
    next
      case ndd: False
      have rel: "same_kind (walk fs (cur @ [c])) (walk fs' (cur @ [c]))" by (rule sh)
      show ?thesis
      proof (cases "walk fs (cur @ [c])")
        case None
        with rel have "walk fs' (cur @ [c]) = None"
          by (simp add: same_kind_NoneD)
        with None nd ndd show ?thesis by simp
      next
        case (Some n)
        show ?thesis
        proof (cases n)
          case (File x)
          with rel Some obtain y where "walk fs' (cur @ [c]) = Some (File y)"
            using same_kind_FileD by fastforce
          with File Some nd ndd show ?thesis by simp
        next
          case (Directory ch)
          with rel Some obtain ch' where d': "walk fs' (cur @ [c]) = Some (Directory ch')"
            using same_kind_DirectoryD by fastforce
          from IH(3)[OF nd ndd Some Directory sh] Directory d' Some nd ndd
          show ?thesis by simp
        next
          case (Symlink t)
          with rel Some have s': "walk fs' (cur @ [c]) = Some (Symlink t)"
            by (simp add: same_kind_SymlinkD)
          show ?thesis
          proof (cases fuel)
            case 0
            with Symlink s' Some nd ndd show ?thesis by simp
          next
            case (Suc f)
            from IH(4)[OF nd ndd Some Symlink Suc sh] Symlink s' Some nd ndd Suc
            show ?thesis by simp
          qed
        qed
      qed
    qed
  qed
qed

lemma writeFile_existing_read:
  assumes "readFile fs p = Inr raw"
  shows "\<exists>fs'. writeFile fs p content = Inr fs' \<and> readFile fs' p = Inr content"
proof -
  from readFile_Inr[OF assms] obtain segs where
    rs: "real_segments fs p = Some segs" and w: "walk fs segs = Some (File raw)" by blast
  from writeFile_existing[OF assms, of content] rs obtain fs' where
    wr: "writeFile fs p content = Inr fs'" and p: "put fs segs (File content) = Some fs'"
    and w': "walk fs' segs = Some (File content)" by auto
  have "real_segments fs' p = real_segments fs p"
    unfolding real_segments_def by (rule realpath_from_same_kind) (rule walk_put_kind[OF w p])
  with rs w' have "readFile fs' p = Inr content" by (simp add: readFile_def stat_def)
  with wr show ?thesis by blast
qed

lemma includes_str_Cons:
  "includes_str (c # cs) sub = (startsWith (c # cs) sub \<or> includes_str cs sub)"
  by (simp add: includes_str_def)

lemma normalize_CRLF_split:
  "normalizeLineEndings (xs @ CR # LF # ys)
     = normalizeLineEndings xs @ LF # normalizeLineEndings ys"
proof (induction xs rule: normalizeLineEndings.induct)
  case (1 c d cs)
  then show ?case by simp
qed simp_all

lemma normalize_no_CRLF:
  "\<not> includes_str s [CR, LF] \<Longrightarrow> normalizeLineEndings s = s"
proof (induction s rule: normalizeLineEndings.induct)
  case (1 c d cs)
  from "1.prems" have nostart: "\<not> (c = CR \<and> d = LF)"
    by (auto simp: includes_str_Cons startsWith_def)
  from "1.prems" have "\<not> includes_str (d # cs) [CR, LF]"
    by (simp add: includes_str_Cons[of c])
  with "1.IH"(2) nostart have "normalizeLineEndings (d # cs) = d # cs" by blast
  with nostart show ?case by auto
qed simp_all

lemma normalize_length_le: "length (normalizeLineEndings s) \<le> length s"
proof (induction s rule: normalizeLineEndings.induct)
  case (1 c d cs)
  show ?case
  proof (cases "c = CR \<and> d = LF")
    case True
    with "1.IH"(1) show ?thesis by simp
  next
    case False
    with "1.IH"(2) show ?thesis by auto
  qed
qed simp_all

lemma normalize_CRLF_shorter:
  "includes_str s [CR, LF] \<Longrightarrow> length (normalizeLineEndings s) < length s"
proof (induction s rule: normalizeLineEndings.induct)
  case (1 c d cs)
  show ?case
  proof (cases "c = CR \<and> d = LF")
    case True
    have "length (normalizeLineEndings cs) \<le> length cs" by (rule normalize_length_le)
    with True show ?thesis by simp
  next
    case False
    with "1.prems" have "includes_str (d # cs) [CR, LF]"
      by (auto simp: includes_str_Cons[of c] startsWith_def)
    with "1.IH"(2) False have "length (normalizeLineEndings (d # cs)) < length (d # cs)"
      by blast
    with False show ?thesis by auto
  qed
qed (simp_all add: includes_str_def startsWith_def)

lemma isMatch_window:
  assumes "i + length oldLines \<le> length contentLines"
  shows "isMatch oldLines contentLines i = window_matches oldLines contentLines i"
proof -
  have "\<And>j. j < length oldLines \<Longrightarrow>
          take (length oldLines) (drop i contentLines) ! j = contentLines ! (i + j)"
    using assms by simp
  with assms show ?thesis
    by (auto simp: isMatch_def window_matches_def Let_def list_all_iff)
qed

lemma findMatch_lowest:
  assumes m: "window_matches oldLines contentLines i"
    and least: "\<forall>k<i. \<not> window_matches oldLines contentLines k"
  shows "findMatch oldLines contentLines = Some i"
proof -
  let ?n = "Suc (length contentLines - length oldLines)"
  from m have bound: "i + length oldLines \<le> length contentLines"
    by (simp add: window_matches_def)
  then have le: "length oldLines \<le> length contentLines" and i: "i < ?n" by simp_all
  from m bound have mi: "isMatch oldLines contentLines i" by (simp add: isMatch_window)
  have lo: "\<not> isMatch oldLines contentLines k" if "k < i" for k
  proof -
    from that bound have "k + length oldLines \<le> length contentLines" by simp
    then have "isMatch oldLines contentLines k = window_matches oldLines contentLines k"
      by (rule isMatch_window)
    with least that show ?thesis by simp
  qed
  have nthu: "[0..<?n] ! k = k" if "k < ?n" for k
    using that by (simp del: upt_Suc)
  have "find (isMatch oldLines contentLines) [0..<?n] = Some i"
  proof (subst find_Some_iff, intro exI[of _ i] conjI allI impI)
    show "i < length [0..<?n]" using i by (simp del: upt_Suc)
    show "isMatch oldLines contentLines ([0..<?n] ! i)" using mi by (simp only: nthu[OF i])
    show "i = [0..<?n] ! i" by (simp only: nthu[OF i])
    fix j assume "j < i"
    with i have "j < ?n" by simp
    show "\<not> isMatch oldLines contentLines ([0..<?n] ! j)"
      unfolding nthu[OF \<open>j < ?n\<close>] by (rule lo[OF \<open>j < i\<close>])
  qed
  with le show ?thesis by (simp add: findMatch_def)
qed

lemma length_newLines_of:
  "length (newLines_of indent oldLines new) = length (split_nl new)"
  by (simp add: newLines_of_def)

lemma nth_newLines_of:
  "j < length (split_nl new) \<Longrightarrow>
   newLines_of indent oldLines new ! j = reindent indent oldLines j (split_nl new ! j)"
  by (simp add: newLines_of_def nth_enumerate_eq)

lemma split_nl_nonempty: "split_nl s \<noteq> []"
  by (induction s) (auto split: list.splits)

text \<open>
  The exact strategy with a replacement text that has no dollar sign: the first
  occurrence of the search text is replaced by the replacement text, and the text before
  and after it stays.
\<close>

lemma getSubstitution_no_dollar:
  "CHR ''$'' \<notin> set template \<Longrightarrow> getSubstitution matched preceding following template = template"
  by (induction matched preceding following template rule: getSubstitution.induct) auto

lemma indexOf_first:
  "indexOf s sub = Some i \<Longrightarrow>
   s = take i s @ sub @ drop (i + length sub) s
   \<and> (\<forall>pre post. s = pre @ sub @ post \<longrightarrow> i \<le> length pre)"
proof (induction s arbitrary: i)
  case Nil
  then show ?case by (simp split: if_splits)
next
  case (Cons c cs)
  show ?case
  proof (cases "startsWith (c # cs) sub")
    case True
    with Cons.prems have i: "i = 0" by simp
    from True have "take (length sub) (c # cs) = sub" by (simp add: startsWith_def)
    then have "c # cs = sub @ drop (length sub) (c # cs)"
      by (metis append_take_drop_id)
    with i show ?thesis by simp
  next
    case False
    with Cons.prems have "map_option Suc (indexOf cs sub) = Some i" by simp
    then obtain k where k: "indexOf cs sub = Some k" and i: "i = Suc k" by blast
    from Cons.IH[OF k] have eq: "cs = take k cs @ sub @ drop (k + length sub) cs"
      and least: "\<forall>pre post. cs = pre @ sub @ post \<longrightarrow> k \<le> length pre" by blast+
    have "c # cs = take i (c # cs) @ sub @ drop (i + length sub) (c # cs)"
      using eq i by simp
    moreover have "i \<le> length pre" if "c # cs = pre @ sub @ post" for pre post
    proof (cases pre)
      case Nil
      with that have "c # cs = sub @ post" by simp
      then have "startsWith (c # cs) sub" by (simp add: startsWith_def)
      with False show ?thesis by simp
    next
      case (Cons p pre')
      with that have "cs = pre' @ sub @ post" by simp
      with least have "k \<le> length pre'" by blast
      with Cons i show ?thesis by simp
    qed
    ultimately show ?thesis by blast
  qed
qed

lemma exact_replace_without_dollar:
  assumes "includes_str buf old" and "CHR ''$'' \<notin> set new"
  shows "\<exists>pre post. buf = pre @ old @ post \<and> replace_str buf old new = pre @ new @ post
           \<and> (\<forall>pre' post'. buf = pre' @ old @ post' \<longrightarrow> length pre \<le> length pre')"
proof -
  from assms(1) obtain i where i: "indexOf buf old = Some i"
    by (auto simp: includes_str_def)
  from indexOf_first[OF i] have eq: "buf = take i buf @ old @ drop (i + length old) buf"
    and least: "\<forall>pre post. buf = pre @ old @ post \<longrightarrow> i \<le> length pre" by blast+
  from indexOf_length[OF i] have len: "length (take i buf) = i" by simp
  from i assms(2) have "replace_str buf old new = take i buf @ new @ drop (i + length old) buf"
    by (simp add: replace_str_def Let_def getSubstitution_no_dollar)
  with eq least len show ?thesis by metis
qed

subsection \<open>Claims\<close>

text \<open>
  C5. When an edit matches by neither strategy after the edits before it have succeeded,
  \<open>applyFileEdits\<close> fails with the error that names the search text of that edit,
  whatever follows it in the list, and the file system is as before. Any failing edit
  list leaves the file system as before; with \<open>dryRun\<close> the file system is as before
  whatever the outcome; and when all edits succeed and \<open>dryRun\<close> is false the file is
  written with the final buffer, which is what is read back from it.
\<close>

theorem applyFileEdits_failure_and_persistence:
  assumes rd: "readFile fs filePath = Inr raw"
  shows "(applyEdits (normalizeLineEndings raw) pre = Inr buf
          \<and> \<not> includes_str buf (normalizeLineEndings (oldText e))
          \<and> findMatch (split_nl (normalizeLineEndings (oldText e))) (split_nl buf) = None
          \<longrightarrow> applyFileEdits patch fs filePath (pre @ e # post) dryRun
                = (Inl (EditNotFound (oldText e)), fs))
       \<and> (applyEdits (normalizeLineEndings raw) bad = Inl err
          \<longrightarrow> applyFileEdits patch fs filePath bad dryRun = (Inl err, fs))
       \<and> snd (applyFileEdits patch fs filePath edits True) = fs
       \<and> (applyEdits (normalizeLineEndings raw) edits = Inr modified
          \<longrightarrow> (\<exists>fs' diff. writeFile fs filePath modified = Inr fs'
                 \<and> applyFileEdits patch fs filePath edits False = (Inr diff, fs')
                 \<and> readFile fs' filePath = Inr modified))"
proof (intro conjI impI)
  assume a: "applyEdits (normalizeLineEndings raw) pre = Inr buf
          \<and> \<not> includes_str buf (normalizeLineEndings (oldText e))
          \<and> findMatch (split_nl (normalizeLineEndings (oldText e))) (split_nl buf) = None"
  then have "applyEdit buf e = Inl (EditNotFound (oldText e))"
    by (simp add: applyEdit_no_match)
  with a have "applyEdits (normalizeLineEndings raw) (pre @ e # post)
                 = Inl (EditNotFound (oldText e))"
    by (simp add: applyEdits_append)
  with rd show "applyFileEdits patch fs filePath (pre @ e # post) dryRun
                = (Inl (EditNotFound (oldText e)), fs)"
    by (simp add: applyFileEdits_def)
next
  assume "applyEdits (normalizeLineEndings raw) bad = Inl err"
  with rd show "applyFileEdits patch fs filePath bad dryRun = (Inl err, fs)"
    by (simp add: applyFileEdits_def)
next
  show "snd (applyFileEdits patch fs filePath edits True) = fs"
    using rd by (simp add: applyFileEdits_def Let_def split: sum.splits)
next
  assume ok: "applyEdits (normalizeLineEndings raw) edits = Inr modified"
  from writeFile_existing_read[OF rd, of modified] obtain fs' where
    wr: "writeFile fs filePath modified = Inr fs'" and rb: "readFile fs' filePath = Inr modified"
    by blast
  from rd ok wr have "\<exists>diff. applyFileEdits patch fs filePath edits False = (Inr diff, fs')"
    by (simp add: applyFileEdits_def Let_def)
  with wr rb show "\<exists>fs' diff. writeFile fs filePath modified = Inr fs'
                 \<and> applyFileEdits patch fs filePath edits False = (Inr diff, fs')
                 \<and> readFile fs' filePath = Inr modified"
    by blast
qed

theorem applyFileEdits_failure_and_persistence_witness:
  "readFile fs_edit ''/sandbox/a.txt'' = Inr ''line1\<newline>line2\<newline>''
   \<and> applyFileEdits plain_patch fs_edit ''/sandbox/a.txt''
        ([\<lparr>oldText = ''line2'', newText = ''LINE2''\<rparr>]
          @ \<lparr>oldText = ''line3'', newText = ''x''\<rparr> # [\<lparr>oldText = ''line1'', newText = ''y''\<rparr>]) False
       = (Inl (EditNotFound ''line3''), fs_edit)
   \<and> applyFileEdits plain_patch fs_edit ''/sandbox/a.txt'' [\<lparr>oldText = ''nothing'', newText = ''x''\<rparr>] False
       = (Inl (EditNotFound ''nothing''), fs_edit)
   \<and> snd (applyFileEdits plain_patch fs_edit ''/sandbox/a.txt''
             [\<lparr>oldText = ''line2'', newText = ''LINE2''\<rparr>] True) = fs_edit
   \<and> (\<exists>fs' diff. writeFile fs_edit ''/sandbox/a.txt'' ''line1\<newline>LINE2\<newline>'' = Inr fs'
         \<and> applyFileEdits plain_patch fs_edit ''/sandbox/a.txt''
              [\<lparr>oldText = ''line2'', newText = ''LINE2''\<rparr>] False = (Inr diff, fs')
         \<and> readFile fs' ''/sandbox/a.txt'' = Inr ''line1\<newline>LINE2\<newline>'')"
proof -
  have rd: "readFile fs_edit ''/sandbox/a.txt'' = Inr ''line1\<newline>line2\<newline>''"
    by code_simp
  have h1: "applyEdits (normalizeLineEndings ''line1\<newline>line2\<newline>'')
              [\<lparr>oldText = ''line2'', newText = ''LINE2''\<rparr>] = Inr ''line1\<newline>LINE2\<newline>''"
    by code_simp
  have h2: "\<not> includes_str ''line1\<newline>LINE2\<newline>''
              (normalizeLineEndings (oldText \<lparr>oldText = ''line3'', newText = ''x''\<rparr>))"
    by code_simp
  have h3: "findMatch (split_nl (normalizeLineEndings (oldText \<lparr>oldText = ''line3'', newText = ''x''\<rparr>)))
              (split_nl ''line1\<newline>LINE2\<newline>'') = None"
    by code_simp
  have h4: "applyEdits (normalizeLineEndings ''line1\<newline>line2\<newline>'')
              [\<lparr>oldText = ''nothing'', newText = ''x''\<rparr>] = Inl (EditNotFound ''nothing'')"
    by code_simp
  from applyFileEdits_failure_and_persistence[OF rd,
      of "[\<lparr>oldText = ''line2'', newText = ''LINE2''\<rparr>]" "''line1\<newline>LINE2\<newline>''"
         "\<lparr>oldText = ''line3'', newText = ''x''\<rparr>" plain_patch
         "[\<lparr>oldText = ''line1'', newText = ''y''\<rparr>]" False
         "[\<lparr>oldText = ''nothing'', newText = ''x''\<rparr>]" "EditNotFound ''nothing''"
         "[\<lparr>oldText = ''line2'', newText = ''LINE2''\<rparr>]" "''line1\<newline>LINE2\<newline>''"]
    rd h1 h2 h3 h4
  show ?thesis by simp
qed

text \<open>
  C6. When the search text does not occur in the buffer and \<open>i\<close> is the lowest index
  whose window matches the search lines after trimming, the edit replaces that window by
  the lines of the replacement, re-indented: the first gets the leading white space of
  the first line of the window, a later line gets that white space, then as many spaces
  as its own leading white space is longer than that of the search line with the same
  index (none if it is shorter), then its text, provided both have leading white space;
  otherwise it is used as it is.
\<close>

theorem whitespace_tolerant_match:
  assumes ol: "oldLines = split_nl (normalizeLineEndings (oldText e))"
    and cl: "contentLines = split_nl buf"
    and rl: "replacement = split_nl (normalizeLineEndings (newText e))"
    and noexact: "\<not> includes_str buf (normalizeLineEndings (oldText e))"
    and m: "window_matches oldLines contentLines i"
    and least: "\<forall>k<i. \<not> window_matches oldLines contentLines k"
  shows "\<exists>newLines.
           applyEdit buf e
             = Inr (join_nl (take i contentLines @ newLines
                             @ drop (i + length oldLines) contentLines))
         \<and> length newLines = length replacement
         \<and> newLines ! 0 = leadingWs (contentLines ! i) @ trimStart (replacement ! 0)
         \<and> (\<forall>j. 0 < j \<and> j < length replacement \<longrightarrow>
               newLines ! j =
                 (if j < length oldLines \<and> leadingWs (oldLines ! j) \<noteq> []
                       \<and> leadingWs (replacement ! j) \<noteq> []
                  then leadingWs (contentLines ! i)
                       @ replicate (length (leadingWs (replacement ! j))
                                    - length (leadingWs (oldLines ! j))) SP
                       @ trimStart (replacement ! j)
                  else replacement ! j))"
proof -
  let ?indent = "leadingWs (contentLines ! i)"
  let ?new = "newLines_of ?indent oldLines (normalizeLineEndings (newText e))"
  from findMatch_lowest[OF m least] have fm: "findMatch oldLines contentLines = Some i" .
  from noexact fm have res: "applyEdit buf e
      = Inr (join_nl (take i contentLines @ ?new @ drop (i + length oldLines) contentLines))"
    unfolding ol cl by (simp add: applyEdit_def Let_def)
  have len: "length ?new = length replacement"
    unfolding rl by (rule length_newLines_of)
  have nth: "?new ! j = reindent ?indent oldLines j (replacement ! j)"
    if "j < length replacement" for j
    using that unfolding rl by (rule nth_newLines_of)
  have "replacement \<noteq> []" unfolding rl by (rule split_nl_nonempty)
  then have "0 < length replacement" by simp
  from nth[OF this] have first: "?new ! 0 = ?indent @ trimStart (replacement ! 0)"
    by (simp add: reindent_def)
  have rest: "?new ! j =
                 (if j < length oldLines \<and> leadingWs (oldLines ! j) \<noteq> []
                       \<and> leadingWs (replacement ! j) \<noteq> []
                  then ?indent
                       @ replicate (length (leadingWs (replacement ! j))
                                    - length (leadingWs (oldLines ! j))) SP
                       @ trimStart (replacement ! j)
                  else replacement ! j)"
    if "0 < j \<and> j < length replacement" for j
  proof -
    have "nat (max 0 (int (length (leadingWs (replacement ! j)))
                      - int (length (leadingWs (oldLines ! j)))))
          = length (leadingWs (replacement ! j)) - length (leadingWs (oldLines ! j))"
      by simp
    with that nth[of j] show ?thesis by (simp add: reindent_def Let_def)
  qed
  from res len first rest show ?thesis by blast
qed

theorem whitespace_tolerant_match_witness:
  "\<not> includes_str ''a\<newline>  foo\<newline>    bar\<newline>  foo\<newline>''
        (normalizeLineEndings ''foo\<newline>  bar'')
   \<and> window_matches [''foo'', ''  bar''] [''a'', ''  foo'', ''    bar'', ''  foo'', []] 1
   \<and> \<not> window_matches [''foo'', ''  bar''] [''a'', ''  foo'', ''    bar'', ''  foo'', []] 0
   \<and> applyEdit ''a\<newline>  foo\<newline>    bar\<newline>  foo\<newline>''
        \<lparr>oldText = ''foo\<newline>  bar'', newText = ''FOO\<newline>    BAR\<newline> x\<newline>y''\<rparr>
       = Inr ''a\<newline>  FOO\<newline>    BAR\<newline> x\<newline>y\<newline>  foo\<newline>''"
proof -
  let ?buf = "''a\<newline>  foo\<newline>    bar\<newline>  foo\<newline>''"
  let ?e = "\<lparr>oldText = ''foo\<newline>  bar'', newText = ''FOO\<newline>    BAR\<newline> x\<newline>y''\<rparr>"
  let ?ol = "[''foo'', ''  bar'']"
  let ?cl = "[''a'', ''  foo'', ''    bar'', ''  foo'', []]"
  let ?rl = "[''FOO'', ''    BAR'', '' x'', ''y'']"
  have ol: "?ol = split_nl (normalizeLineEndings (oldText ?e))" by code_simp
  have cl: "?cl = split_nl ?buf" by code_simp
  have rl: "?rl = split_nl (normalizeLineEndings (newText ?e))" by code_simp
  have noexact: "\<not> includes_str ?buf (normalizeLineEndings (oldText ?e))" by code_simp
  have t: "trim ''foo'' = ''foo''" "trim ''  foo'' = ''foo''" "trim ''  bar'' = ''bar''"
    "trim ''    bar'' = ''bar''" "trim ''a'' = ''a''"
    by code_simp+
  have m: "window_matches ?ol ?cl 1"
    by (simp add: window_matches_def less_Suc_eq t)
  have n0: "\<not> window_matches ?ol ?cl 0"
  proof
    assume "window_matches ?ol ?cl 0"
    then have a: "\<forall>j<length ?ol. trim (?ol ! j) = trim (?cl ! (0 + j))"
      unfolding window_matches_def by (rule conjunct2)
    from a[rule_format, of 0] have "trim ''foo'' = trim ''a''" by simp
    then show False by (simp add: t)
  qed
  then have least: "\<forall>k<1. \<not> window_matches ?ol ?cl k" by simp
  from whitespace_tolerant_match[OF ol cl rl noexact m least] obtain newLines where
    res: "applyEdit ?buf ?e = Inr (join_nl (take 1 ?cl @ newLines @ drop (1 + length ?ol) ?cl))"
    and len: "length newLines = length ?rl"
    and first: "newLines ! 0 = leadingWs (?cl ! 1) @ trimStart (?rl ! 0)"
    and rest: "\<forall>j. 0 < j \<and> j < length ?rl \<longrightarrow>
               newLines ! j =
                 (if j < length ?ol \<and> leadingWs (?ol ! j) \<noteq> [] \<and> leadingWs (?rl ! j) \<noteq> []
                  then leadingWs (?cl ! 1)
                       @ replicate (length (leadingWs (?rl ! j)) - length (leadingWs (?ol ! j))) SP
                       @ trimStart (?rl ! j)
                  else ?rl ! j)"
    by blast
  have w: "leadingWs ''  foo'' = ''  ''" "leadingWs ''  bar'' = ''  ''"
    "leadingWs ''    BAR'' = ''    ''" "trimStart ''FOO'' = ''FOO''"
    "trimStart ''    BAR'' = ''BAR''"
    by code_simp+
  from first have n0': "newLines ! 0 = ''  FOO''" by (simp add: w)
  from rest[rule_format, of 1] have n1: "newLines ! 1 = ''    BAR''" by (simp add: w)
  from rest[rule_format, of 2] have n2: "newLines ! 2 = '' x''" by simp
  from rest[rule_format, of 3] have n3: "newLines ! 3 = ''y''" by simp
  from len have "length newLines = 4" by simp
  then have "newLines = [newLines ! 0, newLines ! 1, newLines ! 2, newLines ! 3]"
    by (auto simp: list_eq_iff_nth_eq less_Suc_eq numeral_eq_Suc)
  with n0' n1 n2 n3 have nl: "newLines = [''  FOO'', ''    BAR'', '' x'', ''y'']" by simp
  from res have r: "applyEdit ?buf ?e
       = Inr ''a\<newline>  FOO\<newline>    BAR\<newline> x\<newline>y\<newline>  foo\<newline>''"
    unfolding nl by simp
  from noexact have noexact': "\<not> includes_str ?buf (normalizeLineEndings ''foo\<newline>  bar'')"
    by simp
  show ?thesis
  proof (intro conjI)
    show "\<not> includes_str ?buf (normalizeLineEndings ''foo\<newline>  bar'')" by (rule noexact')
    show "window_matches ?ol ?cl 1" by (rule m)
    show "\<not> window_matches ?ol ?cl 0" by (rule n0)
    show "applyEdit ?buf ?e
       = Inr ''a\<newline>  FOO\<newline>    BAR\<newline> x\<newline>y\<newline>  foo\<newline>''" by (rule r)
  qed
qed

text \<open>
  C7. Where the search text occurs in the buffer, its first occurrence should be replaced
  by the replacement text as it is. \<open>String.prototype.replace\<close> reads \<open>$$\<close>, \<open>$&\<close>,
  \<open>$`\<close> and \<open>$'\<close> in the replacement as patterns, so what is inserted for \<open>$$9\<close> is
  \<open>$9\<close>, and for \<open>[$&]\<close> the matched text in brackets.
\<close>

theorem exact_replace_interprets_dollar:
  "includes_str ''cost = PRICE'' ''PRICE''
   \<and> applyEdit ''cost = PRICE'' \<lparr>oldText = ''PRICE'', newText = ''$$9''\<rparr>
       = Inr ''cost = $9''
   \<and> applyEdit ''s/x/y/'' \<lparr>oldText = ''y'', newText = ''[$&]''\<rparr> = Inr ''s/x/[y]/''"
  by code_simp

text \<open>
  C9. When \<open>edit_file\<close> succeeds with \<open>dryRun\<close> false, the file holds the result of the
  edits on the content with normalized line ends, for the empty edit list the normalized
  content itself. Normalizing replaces every CR LF by LF and changes nothing else: a
  content with a CR LF is changed by it, a content without one, whatever CR it has, is
  not.
\<close>

theorem edit_file_persists_normalized:
  assumes v: "validatePath ev fs allowedDirectories path = Inr validPath"
    and rd: "readFile fs validPath = Inr raw"
    and ok: "applyEdits (normalizeLineEndings raw) edits = Inr modified"
  shows "(\<exists>fs' diff. edit_file patch ev fs allowedDirectories path edits False = (Inr diff, fs')
            \<and> readFile fs' validPath = Inr modified)
       \<and> (edits = [] \<longrightarrow> modified = normalizeLineEndings raw)
       \<and> (includes_str raw [CR, LF] \<longrightarrow> normalizeLineEndings raw \<noteq> raw)
       \<and> (\<forall>xs ys. raw = xs @ CR # LF # ys
            \<longrightarrow> normalizeLineEndings raw = normalizeLineEndings xs @ LF # normalizeLineEndings ys)
       \<and> (\<not> includes_str raw [CR, LF] \<longrightarrow> normalizeLineEndings raw = raw)"
proof (intro conjI impI allI)
  from writeFile_existing_read[OF rd, of modified] obtain fs' where
    wr: "writeFile fs validPath modified = Inr fs'" and rb: "readFile fs' validPath = Inr modified"
    by blast
  from rd ok wr have "\<exists>diff. applyFileEdits patch fs validPath edits False = (Inr diff, fs')"
    by (simp add: applyFileEdits_def Let_def)
  with v have "\<exists>diff. edit_file patch ev fs allowedDirectories path edits False = (Inr diff, fs')"
    by (simp add: edit_file_def)
  with rb show "\<exists>fs' diff. edit_file patch ev fs allowedDirectories path edits False = (Inr diff, fs')
            \<and> readFile fs' validPath = Inr modified"
    by blast
next
  assume "edits = []"
  with ok show "modified = normalizeLineEndings raw" by simp
next
  assume "includes_str raw [CR, LF]"
  then have "length (normalizeLineEndings raw) < length raw" by (rule normalize_CRLF_shorter)
  then show "normalizeLineEndings raw \<noteq> raw" by auto
next
  fix xs ys
  assume "raw = xs @ CR # LF # ys"
  then show "normalizeLineEndings raw = normalizeLineEndings xs @ LF # normalizeLineEndings ys"
    by (simp only: normalize_CRLF_split)
next
  assume "\<not> includes_str raw [CR, LF]"
  then show "normalizeLineEndings raw = raw" by (rule normalize_no_CRLF)
qed

theorem edit_file_persists_normalized_witness:
  "validatePath ev_posix fs_crlf [''/sandbox''] ''/sandbox/w.txt'' = Inr ''/sandbox/w.txt''
   \<and> readFile fs_crlf ''/sandbox/w.txt'' = Inr [CHR ''a'', CR, CHR ''b'', CR, LF, CHR ''c'']
   \<and> includes_str [CHR ''a'', CR, CHR ''b'', CR, LF, CHR ''c''] [CR, LF]
   \<and> normalizeLineEndings [CHR ''a'', CR, CHR ''b'', CR, LF, CHR ''c'']
       = [CHR ''a'', CR, CHR ''b'', LF, CHR ''c'']
   \<and> (\<exists>fs' diff. edit_file plain_patch ev_posix fs_crlf [''/sandbox''] ''/sandbox/w.txt'' [] False
                    = (Inr diff, fs')
         \<and> readFile fs' ''/sandbox/w.txt'' = Inr [CHR ''a'', CR, CHR ''b'', LF, CHR ''c''])"
proof -
  have v: "validatePath ev_posix fs_crlf [''/sandbox''] ''/sandbox/w.txt'' = Inr ''/sandbox/w.txt''"
    by code_simp
  have rd: "readFile fs_crlf ''/sandbox/w.txt'' = Inr [CHR ''a'', CR, CHR ''b'', CR, LF, CHR ''c'']"
    by code_simp
  have n: "normalizeLineEndings [CHR ''a'', CR, CHR ''b'', CR, LF, CHR ''c'']
             = [CHR ''a'', CR, CHR ''b'', LF, CHR ''c'']"
    by code_simp
  have ok: "applyEdits (normalizeLineEndings [CHR ''a'', CR, CHR ''b'', CR, LF, CHR ''c'']) []
             = Inr [CHR ''a'', CR, CHR ''b'', LF, CHR ''c'']"
    by code_simp
  have inc: "includes_str [CHR ''a'', CR, CHR ''b'', CR, LF, CHR ''c''] [CR, LF]"
    by code_simp
  from edit_file_persists_normalized[OF v rd ok, of plain_patch] v rd n inc
  show ?thesis by simp
qed

section \<open>Searching: results\<close>

subsection \<open>Lemmas\<close>

lemma includes_str_star: "includes_str p ''*'' = (CHR ''*'' \<in> set p)"
proof (induction p)
  case Nil
  show ?case by (simp add: includes_str_def)
next
  case (Cons c cs)
  have "startsWith (c # cs) ''*'' = (c = CHR ''*'')" by (simp add: startsWith_def)
  with Cons show ?case by (auto simp: includes_str_Cons)
qed

lemma split_slash_plain: "CHR ''/'' \<notin> set l \<Longrightarrow> split_slash l = [l]"
  by (induction l) auto

lemma split_slash_append:
  "CHR ''/'' \<notin> set l \<Longrightarrow> split_slash (l @ CHR ''/'' # rest) = l # split_slash rest"
  by (induction l) auto

lemma split_slash_join:
  "names \<noteq> [] \<Longrightarrow> \<forall>n\<in>set names. CHR ''/'' \<notin> set n \<Longrightarrow>
   split_slash (join_slash names) = names"
proof (induction names rule: join_slash.induct)
  case 1
  then show ?case by simp
next
  case (2 l)
  then show ?case by (simp add: split_slash_plain)
next
  case (3 l v va)
  then show ?case by (simp add: split_slash_append)
qed

lemma filter_nonempty_id: "\<forall>n\<in>set xs. n \<noteq> [] \<Longrightarrow> filter (\<lambda>a. a \<noteq> []) xs = xs"
  by (induction xs) auto

lemma hd_butlast_last: "2 \<le> length xs \<Longrightarrow> hd xs # butlast (tl xs) @ [last xs] = xs"
proof (cases xs)
  case Nil
  assume "2 \<le> length xs"
  with Nil show ?thesis by simp
next
  case (Cons x ys)
  assume "2 \<le> length xs"
  with Cons have "ys \<noteq> []" by auto
  with Cons show ?thesis by simp
qed

lemma slashSplit_join:
  assumes "names \<noteq> []" and "\<forall>n\<in>set names. n \<noteq> [] \<and> CHR ''/'' \<notin> set n"
  shows "slashSplit (join_slash names) = names"
proof -
  from assms have sp: "split_slash (join_slash names) = names"
    by (simp add: split_slash_join)
  show ?thesis
  proof (cases "length names \<le> 2")
    case True
    with sp show ?thesis by (simp add: slashSplit_def)
  next
    case False
    have "\<forall>n\<in>set (butlast (tl names)). n \<noteq> []"
    proof
      fix n assume "n \<in> set (butlast (tl names))"
      then have "n \<in> set (tl names)" by (rule in_set_butlastD)
      with assms(1) have "n \<in> set names" by (simp add: list.set_sel(2))
      with assms(2) show "n \<noteq> []" by simp
    qed
    then have "filter (\<lambda>a. a \<noteq> []) (butlast (tl names)) = butlast (tl names)"
      by (rule filter_nonempty_id)
    moreover from False have "hd names # butlast (tl names) @ [last names] = names"
      by (simp add: hd_butlast_last)
    ultimately show ?thesis using False sp by (simp add: slashSplit_def)
  qed
qed

lemma star_match_literal: "CHR ''*'' \<notin> set lit \<Longrightarrow> star_match lit f = (f = lit)"
proof (induction lit arbitrary: f)
  case Nil
  show ?case by simp
next
  case (Cons p ps)
  then show ?case by (cases f) auto
qed

lemma star_match_suffix:
  "CHR ''*'' \<notin> set lit \<Longrightarrow> star_match (CHR ''*'' # lit) f = suffix lit f"
proof (induction f)
  case Nil
  then show ?case by (auto simp: star_match_literal)
next
  case (Cons c cs)
  then show ?case by (auto simp: star_match_literal suffix_Cons)
qed

lemma minimatch_star_log:
  assumes "names \<noteq> []" and "\<forall>n\<in>set names. n \<noteq> [] \<and> CHR ''/'' \<notin> set n"
  shows "minimatch (join_slash names) ''*.log'' = (length names = 1 \<and> suffix ''.log'' (hd names))"
proof -
  from assms obtain f fs where names: "names = f # fs" by (cases names) auto
  have pat: "map parse (slashSplit ''*.log'') = [Magic ''*.log'']"
    by code_simp
  have sm: "star_match ''*.log'' f = suffix ''.log'' f"
    using star_match_suffix[of "''.log''" f] by simp
  have notdots: "f \<noteq> [] \<and> f \<noteq> ''.'' \<and> f \<noteq> ''..''" if "suffix ''.log'' f"
  proof -
    from that have "length ''.log'' \<le> length f" by (rule suffix_length_le)
    then show ?thesis by auto
  qed
  have pm: "part_matches (Magic ''*.log'') f = suffix ''.log'' f"
    using sm notdots by auto
  have rest: "matchOne fs [] = (fs = [])"
  proof (cases fs)
    case Nil
    then show ?thesis by simp
  next
    case (Cons g gs)
    with assms(2) names have "g \<noteq> []" by simp
    with Cons show ?thesis by simp
  qed
  have "matchOne names [Magic ''*.log''] = (suffix ''.log'' f \<and> fs = [])"
    unfolding names using pm rest by simp
  moreover have "minimatch (join_slash names) ''*.log'' = matchOne names [Magic ''*.log'']"
    using slashSplit_join[OF assms] pat by (simp add: minimatch_def)
  ultimately show ?thesis using names by auto
qed

subsection \<open>Claims\<close>

text \<open>
  C8. With the exclude pattern \<open>build\<close> no path with a \<open>build\<close> segment should be
  returned, the \<open>build\<close> directory included, and no excluded directory entered. The
  pattern becomes \<open>**/build/**\<close>, which matches what is below a \<open>build\<close> directory but
  not the directory: both \<open>build\<close> directories are returned for the search pattern
  \<open>build\<close>, and both are listed.
\<close>

theorem search_returns_excluded_build_directory:
  "globPattern ''build'' = ''**/build/**''
   \<and> \<not> minimatch ''build'' ''**/build/**''
   \<and> minimatch ''build/out.js'' ''**/build/**''
   \<and> search_files ev_posix fs_proj [''/proj''] ''/proj'' ''build'' [''build'']
     = Inr [''/proj/build'', ''/proj/src/build'']
   \<and> visited ev_posix fs_proj [''/proj''] ''/proj'' [''build''] ''/proj'' proj_entries
     = [''/proj/build'', ''/proj/src'', ''/proj/src/build'']"
  by code_simp

text \<open>
  C10. The pattern given to \<open>minimatch\<close> is the exclude pattern itself when it has a
  star, and the pattern between \<open>**/\<close> and \<open>/**\<close> otherwise. For the exclude pattern
  \<open>*.log\<close> and the relative path made of the names from the search root to an entry,
  the entry is excluded exactly when it is directly under the root and its name ends in
  \<open>.log\<close>; in the search below, \<open>top.log\<close> is left out and \<open>sub/deep.log\<close> is
  returned.
\<close>

theorem star_exclude_pattern_matched_as_is:
  "shouldExclude [pattern] rel
     = minimatch rel (if CHR ''*'' \<in> set pattern then pattern else ''**/'' @ pattern @ ''/**'')
   \<and> (names \<noteq> [] \<and> (\<forall>n\<in>set names. n \<noteq> [] \<and> CHR ''/'' \<notin> set n)
        \<longrightarrow> shouldExclude [''*.log''] (join_slash names)
             = (length names = 1 \<and> suffix ''.log'' (hd names)))
   \<and> search_files ev_posix fs_logs [''/proj''] ''/proj'' ''.log'' [''*.log'']
       = Inr [''/proj/sub/deep.log'']"
proof (intro conjI impI)
  show "shouldExclude [pattern] rel
     = minimatch rel (if CHR ''*'' \<in> set pattern then pattern else ''**/'' @ pattern @ ''/**'')"
    by (simp add: shouldExclude_def globPattern_def includes_str_star)
next
  assume a: "names \<noteq> [] \<and> (\<forall>n\<in>set names. n \<noteq> [] \<and> CHR ''/'' \<notin> set n)"
  have "globPattern ''*.log'' = ''*.log''" by code_simp
  then have "shouldExclude [''*.log''] (join_slash names) = minimatch (join_slash names) ''*.log''"
    by (simp add: shouldExclude_def)
  with a show "shouldExclude [''*.log''] (join_slash names)
             = (length names = 1 \<and> suffix ''.log'' (hd names))"
    by (simp add: minimatch_star_log)
next
  show "search_files ev_posix fs_logs [''/proj''] ''/proj'' ''.log'' [''*.log'']
       = Inr [''/proj/sub/deep.log'']"
    by code_simp
qed

theorem star_exclude_pattern_matched_as_is_witness:
  "shouldExclude [''*.log''] ''top.log'' \<and> \<not> shouldExclude [''*.log''] ''sub/deep.log''
   \<and> shouldExclude [''logs''] ''a/logs/x'' = minimatch ''a/logs/x'' ''**/logs/**''"
proof -
  have h1: "[''top.log''] \<noteq> [] \<and> (\<forall>n\<in>set [''top.log'']. n \<noteq> [] \<and> CHR ''/'' \<notin> set n)"
    by simp
  have h2: "[''sub'', ''deep.log''] \<noteq> []
            \<and> (\<forall>n\<in>set [''sub'', ''deep.log'']. n \<noteq> [] \<and> CHR ''/'' \<notin> set n)"
    by simp
  have s: "suffix ''.log'' ''top.log''" by code_simp
  from star_exclude_pattern_matched_as_is[of "''logs''" "''a/logs/x''" "[''top.log'']"] h1 s
  have a: "shouldExclude [''*.log''] ''top.log''" by simp
  from star_exclude_pattern_matched_as_is[of "''logs''" "''a/logs/x''" "[''sub'', ''deep.log'']"] h2
  have b: "\<not> shouldExclude [''*.log''] ''sub/deep.log''" by simp
  from star_exclude_pattern_matched_as_is[of "''logs''" "''a/logs/x''" "[''top.log'']"]
  have c: "shouldExclude [''logs''] ''a/logs/x'' = minimatch ''a/logs/x'' ''**/logs/**''" by simp
  from a b c show ?thesis by blast
qed

end
